(* ===== verification/Prelude.thy ===== *)
theory Prelude
  imports Main "HOL-Library.Monad_Syntax"
begin

text \<open>
  Shared vocabulary of the development: the types that name the model's interfaces,
  the collection of definitions unfolded when a concrete run is evaluated, and the
  generic facts on integer congruences, \<open>gcd\<close> and option binds that the component
  theories share.
\<close>

named_theorems model_defs "definitions unfolded to evaluate a closed run of the model"
named_theorems cong_simps "congruence facts modulo the curve modulus"
named_theorems eval_simps "recursive equations that evaluate closed terms only"

declare gcd_code_int [eval_simps]

text \<open>
  An adder is the interface between the scalar multiplication of the curve and the
  point addition it calls: it takes the current state (the curve object, whose
  \<open>div\<close> field is written on failure) and two points or Python \<open>None\<close>, and returns
  the new state and a point or \<open>None\<close>.
\<close>

type_synonym ('s, 'p) adder = "'s \<Rightarrow> 'p option \<Rightarrow> 'p option \<Rightarrow> 's \<times> 'p option"

text \<open>
  The random source \<open>random.randint\<close>: the \<open>j\<close>-th draw of the run, asked for a
  value between \<open>lo\<close> and \<open>hi\<close>. The draw counter is the state that the model threads
  through the factorisation in place of Python's global generator state.
\<close>

type_synonym rng = "nat \<Rightarrow> int \<Rightarrow> int \<Rightarrow> int"

subsection \<open>Congruences and gcd\<close>

lemma mod_eq_by_dvd [cong_simps]:
  "(n::int) dvd a - b \<Longrightarrow> a mod n = b mod n"
  by (simp add: mod_eq_dvd_iff)

lemma mod_diff_dvd [cong_simps]:
  "(n::int) dvd (a mod n) - a"
  by (simp add: mod_eq_dvd_iff [symmetric])

lemma dvd_diff_trans:
  "(n::int) dvd a - b \<Longrightarrow> n dvd b - c \<Longrightarrow> n dvd a - c"
  using dvd_add [of n "a - b" "b - c"] by simp

lemma gcd_ne_one_divisor:
  assumes "0 < (N::int)" and "gcd x N \<noteq> 1"
  shows "1 < gcd x N \<and> gcd x N dvd N"
proof -
  have "gcd x N \<noteq> 0" using assms(1) by simp
  then have "0 < gcd x N" by (simp add: order_le_neq_trans)
  with assms(2) have "1 < gcd x N" by linarith
  then show ?thesis by simp
qed

lemma gcd_ne_one_le:
  assumes "0 < (N::int)"
  shows "gcd x N \<le> N"
  using assms by (simp add: zdvd_imp_le)

lemma gcd_mod_left_int [simp]:
  "gcd ((a::int) mod n) n = gcd a n"
  by (metis gcd.commute gcd_red_int)

lemma gcd_swap_diff_int:
  "gcd ((a::int) - b) n = gcd (b - a) n"
  by (metis gcd_neg1_int minus_diff_eq)

subsection \<open>Lists\<close>

lemma count_list_pos:
  "x \<in> set xs \<Longrightarrow> 0 < count_list xs x"
  using count_list_0_iff [of xs x] by simp

subsection \<open>Option binds\<close>

lemma bind_eq_Some_prod:
  "(m \<bind> (\<lambda>(a, b). f a b)) = Some r \<longleftrightarrow> (\<exists>a b. m = Some (a, b) \<and> f a b = Some r)"
  by (cases m) auto

end
