(* ===== verification/Modular.thy ===== *)
theory Modular
  imports Prelude
begin

text \<open>
  Modular inverse, \<open>inverse(a, n) = pow(a, -1, n)\<close> of \<^verbatim>\<open>src/main.py\<close>.
  Python computes it by the extended Euclidean algorithm and raises \<open>ValueError\<close>
  when \<open>gcd a n \<noteq> 1\<close>; the curve arithmetic calls it only after its own
  \<open>math.gcd\<close> test has found the gcd to be 1, so the model is the extended Euclidean
  algorithm itself, and the lemmas below show that on that domain it returns exactly
  the value Python returns: the unique residue \<open>x\<close> in \<open>[0, n)\<close> with
  \<open>a * x mod n = 1 mod n\<close>.
\<close>

function egcd :: "int \<Rightarrow> int \<Rightarrow> int \<times> int \<times> int" where
  "egcd a b =
     (if b = 0 then (a, 1, 0)
      else (case egcd b (a mod b) of (g, s, t) \<Rightarrow> (g, t, s - (a div b) * t)))"
  by pat_completeness auto
termination
  by (relation "measure (\<lambda>(a, b). nat \<bar>b\<bar>)") (auto simp: abs_mod_less)

declare egcd.simps [simp del] egcd.simps [eval_simps]

definition inverse_mod :: "int \<Rightarrow> int \<Rightarrow> int" where
  "inverse_mod a n = (case egcd (a mod n) n of (g, s, t) \<Rightarrow> s mod n)"

declare inverse_mod_def [model_defs]

subsection \<open>The extended Euclidean algorithm\<close>

lemma egcd_bezout:
  "egcd a b = (g, s, t) \<Longrightarrow> s * a + t * b = g"
proof (induction a b arbitrary: g s t rule: egcd.induct)
  case (1 a b)
  show ?case
  proof (cases "b = 0")
    case True
    with "1.prems" show ?thesis by (simp add: egcd.simps)
  next
    case False
    obtain g' s' t' where rec: "egcd b (a mod b) = (g', s', t')"
      by (cases "egcd b (a mod b)") auto
    with False "1.prems" have eqs: "g = g'" "s = t'" "t = s' - (a div b) * t'"
      by (auto simp: egcd.simps [of a b])
    from "1.IH" [OF False rec] have ih: "s' * b + t' * (a mod b) = g'" .
    have "s * a + t * b = s' * b + t' * (a - (a div b) * b)"
      unfolding eqs by (simp add: algebra_simps)
    also have "\<dots> = g'"
      using ih by (simp add: minus_div_mult_eq_mod)
    finally show ?thesis using eqs(1) by simp
  qed
qed

lemma egcd_fst_step:
  "b \<noteq> 0 \<Longrightarrow> fst (egcd a b) = fst (egcd b (a mod b))"
  by (simp add: egcd.simps [of a b] split: prod.split)

lemma egcd_gcd:
  "0 \<le> a \<Longrightarrow> 0 \<le> b \<Longrightarrow> fst (egcd a b) = gcd a b"
proof (induction a b rule: egcd.induct)
  case (1 a b)
  show ?case
  proof (cases "b = 0")
    case True
    with "1.prems" show ?thesis by (simp add: egcd.simps)
  next
    case False
    with "1.prems" have "0 \<le> a mod b" by simp
    with "1.IH" [OF False] "1.prems" have "fst (egcd b (a mod b)) = gcd b (a mod b)"
      by simp
    with False show ?thesis
      by (simp add: egcd_fst_step gcd_red_int [of a b])
  qed
qed

subsection \<open>The inverse\<close>

lemma inverse_mod_range:
  "0 < n \<Longrightarrow> 0 \<le> inverse_mod a n \<and> inverse_mod a n < n"
  by (simp add: inverse_mod_def split: prod.splits)

lemma inverse_mod_correct:
  assumes n: "0 < n" and g: "gcd a n = 1"
  shows "(a * inverse_mod a n) mod n = 1 mod n"
proof -
  obtain h s t where e: "egcd (a mod n) n = (h, s, t)"
    by (cases "egcd (a mod n) n") auto
  from e have "s * (a mod n) + t * n = h" by (rule egcd_bezout)
  moreover from e n have "h = gcd (a mod n) n"
    using egcd_gcd [of "a mod n" n] by simp
  ultimately have "s * (a mod n) + t * n = 1" using g by simp
  then have "s * (a mod n) - 1 = n * (- t)" by (simp add: algebra_simps)
  then have "n dvd s * (a mod n) - 1" by simp
  then have "(s * (a mod n)) mod n = 1 mod n" by (simp add: mod_eq_by_dvd)
  moreover have "(a * (s mod n)) mod n = (s * (a mod n)) mod n"
    by (metis mod_mult_left_eq mod_mult_right_eq mult.commute)
  ultimately show ?thesis
    using e by (simp add: inverse_mod_def)
qed

lemma inverse_mod_dvd:
  "0 < n \<Longrightarrow> gcd a n = 1 \<Longrightarrow> n dvd a * inverse_mod a n - 1"
  using inverse_mod_correct [of n a] by (simp add: mod_eq_dvd_iff)

text \<open>
  \<open>pow(a, -1, n)\<close> is specified as the residue in \<open>[0, n)\<close> whose product with
  \<open>a\<close> is 1 modulo \<open>n\<close>; there is only one, so the model returns Python's value.
\<close>

lemma inverse_mod_unique:
  assumes n: "0 < n" and g: "gcd a n = 1"
    and x: "0 \<le> x" "x < n" and ax: "(a * x) mod n = 1 mod n"
  shows "x = inverse_mod a n"
proof -
  let ?i = "inverse_mod a n"
  have ai: "(a * ?i) mod n = 1 mod n" using n g by (rule inverse_mod_correct)
  have d1: "n dvd a * x - 1" "n dvd a * ?i - 1"
    using ax ai by (simp_all add: mod_eq_dvd_iff)
  have "n dvd (a * x - 1) - (a * ?i - 1)"
    using dvd_diff [OF d1] .
  then have "n dvd a * (x - ?i)" by (simp add: right_diff_distrib)
  moreover have "coprime n a" using g by (simp add: coprime_iff_gcd_eq_1 gcd.commute)
  ultimately have "n dvd x - ?i" by (simp add: coprime_dvd_mult_right_iff)
  then have "x mod n = ?i mod n" by (simp add: mod_eq_by_dvd)
  moreover have "0 \<le> ?i" "?i < n" using inverse_mod_range [OF n] by auto
  ultimately show ?thesis using x by simp
qed

lemma inverse_mod_neg:
  assumes n: "0 < n" and g: "gcd a n = 1"
  shows "inverse_mod (- a) n = (- inverse_mod a n) mod n"
proof (rule inverse_mod_unique [symmetric])
  show "0 < n" by (rule n)
  show "gcd (- a) n = 1" using g by simp
  show "0 \<le> (- inverse_mod a n) mod n" "(- inverse_mod a n) mod n < n" using n by simp_all
  have "(- a * ((- inverse_mod a n) mod n)) mod n = (a * inverse_mod a n) mod n"
    by (metis minus_mult_minus mod_mult_right_eq)
  then show "(- a * ((- inverse_mod a n) mod n)) mod n = 1 mod n"
    using inverse_mod_correct [OF n g] by simp
qed

subsection \<open>Properties of the inverse\<close>

text \<open>
  C14. \<open>inverse(a, n)\<close> meets the contract of \<open>pow(a, -1, n)\<close> wherever the curve
  arithmetic calls it (\<open>n > 0\<close> and \<open>gcd(a, n) = 1\<close>): a value is the result exactly
  when it is a residue in \<open>[0, n)\<close> whose product with \<open>a\<close> is 1 modulo \<open>n\<close>.
\<close>

theorem inverse_mod_pow_contract:
  assumes "0 < n" and "gcd a n = 1"
  shows "x = inverse_mod a n \<longleftrightarrow> 0 \<le> x \<and> x < n \<and> (a * x) mod n = 1 mod n"
  using inverse_mod_unique [OF assms] inverse_mod_range [OF assms(1)] inverse_mod_correct [OF assms]
  by blast

theorem inverse_mod_pow_contract_witness:
  "inverse_mod 3 7 = 5 \<and> 0 < (7::int) \<and> gcd (3::int) 7 = 1"
proof -
  have h: "0 < (7::int)" "gcd (3::int) 7 = 1" by (simp_all add: eval_simps)
  have "(5::int) = inverse_mod 3 7 \<longleftrightarrow> 0 \<le> (5::int) \<and> (5::int) < 7 \<and> (3 * 5) mod 7 = 1 mod (7::int)"
    by (rule inverse_mod_pow_contract [OF h])
  then show ?thesis using h by simp
qed

end
