(* ===== verification/Curve.thy ===== *)
theory Curve
  imports Modular
begin

text \<open>
  The classes \<open>Point\<close> and \<open>EllipticCurve\<close> of \<^verbatim>\<open>src/main.py\<close> and the point
  addition \<open>EllipticCurve.sum\<close>. A point is a value with structural equality; Python's
  \<open>None\<close>, which the code uses both as the point at infinity and as the failure
  result of \<open>sum\<close>, is the \<open>None\<close> of \<open>point option\<close>. The curve object is a record;
  its field \<open>div\<close> is the only one that \<open>sum\<close> writes, so \<open>sum\<close> returns the new
  record beside its result.
\<close>

datatype point = Point (px: int) (py: int)

record curve =
  ec_a :: int
  ec_b :: int
  ec_N :: int
  ec_div :: int

definition new_curve :: "int \<Rightarrow> int \<Rightarrow> int \<Rightarrow> curve" where
  "new_curve a b N = \<lparr>ec_a = a, ec_b = b, ec_N = N, ec_div = 1\<rparr>"

definition sum_ec :: "(curve, point) adder" where
  "sum_ec E p q =
     (case p of None \<Rightarrow> (E, q) | Some P \<Rightarrow>
      (case q of None \<Rightarrow> (E, p) | Some Q \<Rightarrow>
       (if P = Q then
          (if gcd (2 * py P) (ec_N E) \<noteq> 1
           then (E\<lparr>ec_div := gcd (2 * py P) (ec_N E)\<rparr>, None)
           else
             (let slope = (3 * px P * px P + ec_a E) * inverse_mod (2 * py P) (ec_N E);
                  x = (slope * slope - 2 * px P) mod ec_N E;
                  y = (slope * (px P - x) - py P) mod ec_N E
              in (E, Some (Point x y))))
        else
          (if gcd (px Q - px P) (ec_N E) \<noteq> 1
           then (E\<lparr>ec_div := gcd (px Q - px P) (ec_N E)\<rparr>, None)
           else
             (let slope = (py Q - py P) * inverse_mod (px Q - px P) (ec_N E);
                  x3 = (slope * slope - px P - px Q) mod ec_N E;
                  y3 = (slope * (px P - x3) - py P) mod ec_N E
              in (E, Some (Point x3 y3)))))))"

declare new_curve_def [model_defs] sum_ec_def [model_defs]

text \<open>
  The invariant of a curve object: a positive modulus, and a \<open>div\<close> field that is
  either the initial 1 or a divisor of the modulus greater than 1.
\<close>

definition curve_inv :: "curve \<Rightarrow> bool" where
  "curve_inv E \<longleftrightarrow> 0 < ec_N E \<and> (ec_div E = 1 \<or> (1 < ec_div E \<and> ec_div E dvd ec_N E))"

text \<open>The gcd test of \<open>sum\<close> on two points: \<open>Some g\<close> when it fails with \<open>g\<close>.\<close>

definition sum_failure :: "int \<Rightarrow> point \<Rightarrow> point \<Rightarrow> int option" where
  "sum_failure N P Q =
     (let g = (if P = Q then gcd (2 * py P) N else gcd (px Q - px P) N)
      in if g \<noteq> 1 then Some g else None)"

text \<open>
  A point lies on the curve \<open>y^2 = x^3 + ax + b\<close> over \<open>Z/NZ\<close> (the docstring of
  \<open>EllipticCurve\<close>) when the curve polynomial vanishes modulo \<open>N\<close>.
\<close>

definition curve_poly :: "curve \<Rightarrow> int \<Rightarrow> int \<Rightarrow> int" where
  "curve_poly E x y = y * y - (x * x * x + ec_a E * x + ec_b E)"

definition on_curve :: "curve \<Rightarrow> point \<Rightarrow> bool" where
  "on_curve E P \<longleftrightarrow> curve_poly E (px P) (py P) mod ec_N E = 0"

subsection \<open>Identity, frame and failure\<close>

lemma sum_ec_None_left [simp]: "sum_ec E None q = (E, q)"
  by (simp add: sum_ec_def)

lemma sum_ec_None_right [simp]: "sum_ec E p None = (E, p)"
  by (cases p) (simp_all add: sum_ec_def)

lemma sum_ec_fails:
  "sum_failure (ec_N E) P Q = Some g \<Longrightarrow> sum_ec E (Some P) (Some Q) = (E\<lparr>ec_div := g\<rparr>, None)"
  by (auto simp: sum_ec_def sum_failure_def Let_def split: if_splits)

lemma sum_ec_succeeds:
  "sum_failure (ec_N E) P Q = None \<Longrightarrow> \<exists>R. sum_ec E (Some P) (Some Q) = (E, Some R)"
  by (auto simp: sum_ec_def sum_failure_def Let_def split: if_splits)

lemma sum_failure_gcd:
  "sum_failure N P Q = Some g \<Longrightarrow> 0 < N \<Longrightarrow> 1 < g \<and> g dvd N"
  by (auto simp: sum_failure_def Let_def gcd_ne_one_divisor split: if_splits)

lemma sum_ec_state:
  "sum_ec E p q = (E', r) \<Longrightarrow>
     E' = E \<or> (\<exists>P Q g. p = Some P \<and> q = Some Q \<and> r = None \<and>
                  sum_failure (ec_N E) P Q = Some g \<and> E' = E\<lparr>ec_div := g\<rparr>)"
proof (cases p)
  case (Some P)
  show "sum_ec E p q = (E', r) \<Longrightarrow> ?thesis"
  proof (cases q)
    case (Some Q)
    assume s: "sum_ec E p q = (E', r)"
    show ?thesis
    proof (cases "sum_failure (ec_N E) P Q")
      case None
      with s \<open>p = Some P\<close> \<open>q = Some Q\<close> show ?thesis by (auto dest: sum_ec_succeeds)
    next
      case (Some g)
      with s \<open>p = Some P\<close> \<open>q = Some Q\<close> show ?thesis by (auto simp: sum_ec_fails)
    qed
  qed (use Some in simp)
qed simp

lemma sum_failure_ne_one:
  "sum_failure N P Q = Some g \<Longrightarrow> g \<noteq> 1"
  by (auto simp: sum_failure_def Let_def split: if_splits)

lemma sum_failure_sym:
  "sum_failure N P Q = sum_failure N Q P"
  by (cases "P = Q") (auto simp: sum_failure_def Let_def gcd_swap_diff_int)

lemma sum_ec_frame [simp]:
  "ec_a (fst (sum_ec E p q)) = ec_a E"
  "ec_b (fst (sum_ec E p q)) = ec_b E"
  "ec_N (fst (sum_ec E p q)) = ec_N E"
  by (auto simp: sum_ec_def Let_def split: option.splits)

lemma sum_ec_point_indep_div:
  "snd (sum_ec (E\<lparr>ec_div := d\<rparr>) p q) = snd (sum_ec E p q)"
  by (simp add: sum_ec_def Let_def split: option.splits)

lemma sum_ec_div_sim:
  "(fst (sum_ec E p q))\<lparr>ec_div := 1\<rparr> = (fst (sum_ec (E\<lparr>ec_div := d\<rparr>) p q))\<lparr>ec_div := 1\<rparr>"
  by (simp add: sum_ec_def Let_def split: option.splits)

lemma sum_ec_div_sticky:
  "ec_div E \<noteq> 1 \<Longrightarrow> ec_div (fst (sum_ec E p q)) \<noteq> 1"
  using sum_ec_state [of E p q "fst (sum_ec E p q)" "snd (sum_ec E p q)"]
  by (auto dest: sum_failure_ne_one)

lemma sum_ec_None_iff:
  "snd (sum_ec E (Some P) (Some Q)) = None \<longleftrightarrow> sum_failure (ec_N E) P Q \<noteq> None"
  by (cases "sum_failure (ec_N E) P Q") (auto simp: sum_ec_fails dest: sum_ec_succeeds)

lemma sum_ec_curve_inv:
  assumes "curve_inv E"
  shows "curve_inv (fst (sum_ec E p q))"
  using sum_ec_state [of E p q "fst (sum_ec E p q)" "snd (sum_ec E p q)"] assms
  by (auto simp: curve_inv_def dest: sum_failure_gcd)

subsection \<open>Results of a successful addition\<close>

text \<open>
  C13. A point that \<open>sum\<close> computes from two points has both coordinates reduced
  into \<open>[0, N)\<close>.
\<close>

theorem sum_ec_result_range:
  assumes "sum_ec E (Some P) (Some Q) = (E', Some R)" and "0 < ec_N E"
  shows "0 \<le> px R \<and> px R < ec_N E \<and> 0 \<le> py R \<and> py R < ec_N E"
  using assms by (auto simp: sum_ec_def Let_def split: if_splits)

lemma slope_neg:
  assumes "0 < N" "gcd d N = 1"
  shows "((- e) * inverse_mod (- d) N) mod N = (e * inverse_mod d N) mod N"
proof -
  have "((- e) * inverse_mod (- d) N) mod N = ((- e) * ((- inverse_mod d N) mod N)) mod N"
    using inverse_mod_neg [OF assms] by simp
  also have "\<dots> = ((- e) * (- inverse_mod d N)) mod N"
    by (rule mod_mult_right_eq)
  finally show ?thesis by simp
qed

lemma slope_cancel:
  assumes "0 < N" "gcd d N = 1"
  shows "(e * inverse_mod d N * d) mod N = e mod N"
proof -
  have "(e * inverse_mod d N * d) mod N = (e * (d * inverse_mod d N)) mod N"
    by (simp add: ac_simps)
  also have "\<dots> = (e * ((d * inverse_mod d N) mod N)) mod N"
    by (rule mod_mult_right_eq [symmetric])
  also have "\<dots> = (e * (1 mod N)) mod N"
    using inverse_mod_correct [OF assms] by simp
  finally show ?thesis by (simp add: mod_mult_right_eq)
qed

lemma sum_ec_distinct_comm:
  assumes N: "0 < ec_N E" and ne: "P \<noteq> Q" and g: "gcd (px Q - px P) (ec_N E) = 1"
  shows "snd (sum_ec E (Some P) (Some Q)) = snd (sum_ec E (Some Q) (Some P))"
proof -
  define n where "n = ec_N E"
  define d where "d = px Q - px P"
  define s1 where "s1 = (py Q - py P) * inverse_mod d n"
  define s2 where "s2 = (py P - py Q) * inverse_mod (px P - px Q) n"
  have n: "0 < n" and gd: "gcd d n = 1" using N g by (simp_all add: n_def d_def)
  have g': "gcd (px P - px Q) (ec_N E) = 1"
    using g by (simp add: gcd_swap_diff_int)
  have "s2 mod n = ((- (py Q - py P)) * inverse_mod (- d) n) mod n"
    by (simp add: s2_def d_def)
  also have "\<dots> = s1 mod n"
    unfolding s1_def by (rule slope_neg [OF n gd])
  finally have ss: "n dvd s2 - s1" by (simp add: mod_eq_dvd_iff)
  define x where "x = (s1 * s1 - px P - px Q) mod n"
  have "(s2 * s2 - px Q - px P) - (s1 * s1 - px P - px Q) = (s2 - s1) * (s2 + s1)"
    by (simp add: algebra_simps)
  then have "n dvd (s2 * s2 - px Q - px P) - (s1 * s1 - px P - px Q)"
    using ss by simp
  then have x2: "(s2 * s2 - px Q - px P) mod n = x"
    by (simp add: x_def mod_eq_by_dvd)
  have "(s1 * d) mod n = (py Q - py P) mod n"
    using slope_cancel [OF n gd] by (simp add: s1_def)
  then have sd: "n dvd s1 * d - (py Q - py P)" by (simp add: mod_eq_dvd_iff)
  have "(s2 * (px Q - x) - py Q) - (s1 * (px P - x) - py P)
          = (s2 - s1) * (px Q - x) + (s1 * d - (py Q - py P))"
    by (simp add: d_def algebra_simps)
  moreover have "n dvd (s2 - s1) * (px Q - x) + (s1 * d - (py Q - py P))"
    using ss sd by (intro dvd_add dvd_mult2)
  ultimately have "n dvd (s2 * (px Q - x) - py Q) - (s1 * (px P - x) - py P)"
    by (simp only:)
  then have y2: "(s2 * (px Q - x) - py Q) mod n = (s1 * (px P - x) - py P) mod n"
    by (simp add: mod_eq_by_dvd)
  show ?thesis
    using ne g g' x2 y2
    by (simp add: sum_ec_def Let_def n_def d_def s1_def s2_def x_def)
qed

subsection \<open>Properties of the addition\<close>

text \<open>
  C11. \<open>sum\<close> is commutative as the code computes it, failures included: for a
  positive modulus, \<open>sum(p, q)\<close> and \<open>sum(q, p)\<close> return the same point (or the
  same \<open>None\<close>) and leave the curve object in the same state.
\<close>

theorem sum_ec_comm:
  assumes N: "0 < ec_N E"
  shows "sum_ec E p q = sum_ec E q p"
proof (cases p)
  case None
  then show ?thesis by simp
next
  case (Some P)
  show ?thesis
  proof (cases q)
    case None
    with Some show ?thesis by simp
  next
    case (Some Q)
    show ?thesis
    proof (cases "P = Q")
      case True
      with \<open>p = Some P\<close> Some show ?thesis by simp
    next
      case False
      then have ne: "Q \<noteq> P" by blast
      have g: "gcd (px P - px Q) (ec_N E) = gcd (px Q - px P) (ec_N E)"
        by (rule gcd_swap_diff_int)
      show ?thesis
      proof (cases "gcd (px Q - px P) (ec_N E) = 1")
        case True
        have "fst (sum_ec E (Some P) (Some Q)) = E" "fst (sum_ec E (Some Q) (Some P)) = E"
          using False ne True g by (simp_all add: sum_ec_def Let_def)
        moreover have "snd (sum_ec E (Some P) (Some Q)) = snd (sum_ec E (Some Q) (Some P))"
          using N False True by (rule sum_ec_distinct_comm)
        ultimately show ?thesis using \<open>p = Some P\<close> Some by (simp add: prod_eq_iff)
      next
        case False
        with \<open>P \<noteq> Q\<close> ne g \<open>p = Some P\<close> Some show ?thesis by (simp add: sum_ec_def)
      qed
    qed
  qed
qed

theorem sum_ec_comm_witness:
  "sum_ec (new_curve 1 1 91) (Some (Point 3 5)) (Some (Point 4 7))
     = sum_ec (new_curve 1 1 91) (Some (Point 4 7)) (Some (Point 3 5))"
  by (rule sum_ec_comm) (simp add: new_curve_def)

text \<open>
  C12. The failure protocol: when \<open>sum\<close>, called with at least one point on a
  curve object that satisfies the invariant, returns \<open>None\<close>, it has written into
  \<open>div\<close> a divisor of \<open>N\<close> greater than 1 (possibly \<open>N\<close> itself), never 1 and
  never a non-divisor.
\<close>

theorem sum_ec_failure_divisor:
  assumes "curve_inv E" and "sum_ec E p q = (E', None)" and "p \<noteq> None \<or> q \<noteq> None"
  shows "1 < ec_div E' \<and> ec_div E' dvd ec_N E'"
proof -
  from assms(2,3) obtain P Q where pq: "p = Some P" "q = Some Q"
    by (cases p; cases q) auto
  show ?thesis
  proof (cases "sum_failure (ec_N E) P Q")
    case None
    with assms(2) pq show ?thesis by (auto dest: sum_ec_succeeds)
  next
    case (Some g)
    with assms(2) pq have "E' = E\<lparr>ec_div := g\<rparr>" by (simp add: sum_ec_fails)
    with Some assms(1) show ?thesis by (auto simp: curve_inv_def dest: sum_failure_gcd)
  qed
qed

theorem sum_ec_failure_divisor_witness:
  "curve_inv (new_curve 1 1 15)
   \<and> sum_ec (new_curve 1 1 15) (Some (Point 2 5)) (Some (Point 2 5))
       = (\<lparr>ec_a = 1, ec_b = 1, ec_N = 15, ec_div = 5\<rparr>, None)
   \<and> 1 < ec_div \<lparr>ec_a = 1, ec_b = 1, ec_N = 15, ec_div = 5\<rparr>
   \<and> ec_div \<lparr>ec_a = 1, ec_b = 1, ec_N = 15, ec_div = 5\<rparr> dvd ec_N \<lparr>ec_a = 1, ec_b = 1, ec_N = 15, ec_div = 5\<rparr>"
proof -
  have inv: "curve_inv (new_curve 1 1 15)" by (simp add: curve_inv_def new_curve_def)
  have run: "sum_ec (new_curve 1 1 15) (Some (Point 2 5)) (Some (Point 2 5))
       = (\<lparr>ec_a = 1, ec_b = 1, ec_N = 15, ec_div = 5\<rparr>, None)"
    by (simp add: model_defs eval_simps)
  show ?thesis using sum_ec_failure_divisor [OF inv run] inv run by simp
qed

theorem sum_ec_result_range_witness:
  "sum_ec (new_curve 1 1 91) (Some (Point 3 5)) (Some (Point 3 5))
     = (new_curve 1 1 91, Some (Point 71 23))
   \<and> 0 \<le> (71::int) \<and> (71::int) < 91 \<and> 0 \<le> (23::int) \<and> (23::int) < 91"
proof -
  have run: "sum_ec (new_curve 1 1 91) (Some (Point 3 5)) (Some (Point 3 5))
     = (new_curve 1 1 91, Some (Point 71 23))"
    by (simp add: model_defs eval_simps Let_def)
  have "0 < ec_N (new_curve 1 1 91)" by (simp add: new_curve_def)
  with sum_ec_result_range [OF run] run show ?thesis by (simp add: new_curve_def)
qed

subsection \<open>Points stay on the curve\<close>

text \<open>
  The chord and the tangent certificates: the curve polynomial at the computed
  coordinates, before reduction, is a combination of the curve polynomial at the
  inputs, the slope equation and the inverse equation \<open>d * i = 1\<close>.
\<close>

lemma chord_identity:
  fixes x1 y1 x2 y2 s i a b :: int
  defines "X3 \<equiv> s * s - x1 - x2"
  defines "d \<equiv> x2 - x1"
  shows "(s * (x1 - X3) - y1) * (s * (x1 - X3) - y1) - (X3 * X3 * X3 + a * X3 + b)
       = (y1 * y1 - (x1 * x1 * x1 + a * x1 + b))
         + (((y2 * y2 - (x2 * x2 * x2 + a * x2 + b)) + 2 * y2 * (s * d - (y2 - y1))
             + (s * d - (y2 - y1)) * (s * d - (y2 - y1)))
           - (y1 * y1 - (x1 * x1 * x1 + a * x1 + b))) * i * (X3 - x1)
         + (a - 2 * s * (y1 - s * x1) - (x1 * x2 + x1 * X3 + x2 * X3)) * (d * i - 1) * (X3 - x1)"
  unfolding X3_def d_def by algebra

lemma tangent_identity:
  fixes x1 y1 s a b :: int
  defines "X3 \<equiv> s * s - 2 * x1"
  shows "(s * (x1 - X3) - y1) * (s * (x1 - X3) - y1) - (X3 * X3 * X3 + a * X3 + b)
       = (y1 * y1 - (x1 * x1 * x1 + a * x1 + b)) + (s * (2 * y1) - (3 * x1 * x1 + a)) * (X3 - x1)"
  unfolding X3_def by algebra

lemma curve_poly_cong:
  assumes "n dvd x - x'" and "n dvd y - y'"
  shows "n dvd curve_poly E x y - curve_poly E x' y'"
proof -
  have "curve_poly E x y - curve_poly E x' y'
        = (y - y') * (y + y') - (x - x') * (x * x + x * x' + x' * x' + ec_a E)"
    unfolding curve_poly_def by algebra
  with assms show ?thesis by (simp add: dvd_diff dvd_mult2)
qed

lemma on_curve_by_cong:
  assumes "n dvd curve_poly E X Y" and "n dvd x - X" and "n dvd y - Y" and "ec_N E = n"
  shows "on_curve E (Point x y)"
proof -
  have "n dvd curve_poly E x y - curve_poly E X Y"
    using assms(2,3) by (rule curve_poly_cong)
  then have "n dvd (curve_poly E x y - curve_poly E X Y) + curve_poly E X Y"
    using assms(1) by (rule dvd_add)
  then have "n dvd curve_poly E x y" by simp
  with assms(4) show ?thesis by (simp add: on_curve_def)
qed

lemma on_curve_dvd:
  "on_curve E P \<Longrightarrow> ec_N E dvd curve_poly E (px P) (py P)"
  by (simp add: on_curve_def dvd_eq_mod_eq_0)

lemma reduced_point_on_curve:
  assumes T: "ec_N E dvd curve_poly E X (s * (x0 - X) - y0)"
  shows "on_curve E (Point (X mod ec_N E) ((s * (x0 - X mod ec_N E) - y0) mod ec_N E))"
proof (rule on_curve_by_cong [OF T])
  let ?n = "ec_N E"
  show dx: "?n dvd X mod ?n - X" by (rule mod_diff_dvd)
  have "(s * (x0 - X mod ?n) - y0) - (s * (x0 - X) - y0) = - (s * (X mod ?n - X))"
    by (simp add: algebra_simps)
  then have "?n dvd (s * (x0 - X mod ?n) - y0) - (s * (x0 - X) - y0)" using dx by simp
  then show "?n dvd (s * (x0 - X mod ?n) - y0) mod ?n - (s * (x0 - X) - y0)"
    by (rule dvd_diff_trans [OF mod_diff_dvd])
qed simp

lemma sum_ec_double_on_curve:
  assumes N: "0 < ec_N E" and P: "on_curve E P"
    and r: "sum_ec E (Some P) (Some P) = (E', Some R)"
  shows "on_curve E R"
proof -
  define n where "n = ec_N E"
  define s where "s = (3 * px P * px P + ec_a E) * inverse_mod (2 * py P) n"
  define X where "X = s * s - 2 * px P"
  have g: "gcd (2 * py P) n = 1" and R: "R = Point (X mod n) ((s * (px P - X mod n) - py P) mod n)"
    using r by (auto simp: sum_ec_def Let_def n_def s_def X_def split: if_splits)
  have "(s * (2 * py P)) mod n = (3 * px P * px P + ec_a E) mod n"
    using slope_cancel [of n "2 * py P" "3 * px P * px P + ec_a E"] N g by (simp add: s_def n_def)
  then have S: "n dvd s * (2 * py P) - (3 * px P * px P + ec_a E)" by (simp add: mod_eq_dvd_iff)
  have "curve_poly E X (s * (px P - X) - py P)
        = curve_poly E (px P) (py P) + (s * (2 * py P) - (3 * px P * px P + ec_a E)) * (X - px P)"
    unfolding curve_poly_def X_def by (rule tangent_identity)
  with S on_curve_dvd [OF P] have "n dvd curve_poly E X (s * (px P - X) - py P)"
    by (simp add: n_def dvd_add dvd_mult2)
  with R show ?thesis using reduced_point_on_curve [of E X s "px P" "py P"] by (simp add: n_def)
qed

lemma sum_ec_chord_on_curve:
  assumes N: "0 < ec_N E" and P: "on_curve E P" and Q: "on_curve E Q" and ne: "P \<noteq> Q"
    and r: "sum_ec E (Some P) (Some Q) = (E', Some R)"
  shows "on_curve E R"
proof -
  define n where "n = ec_N E"
  define d where "d = px Q - px P"
  define i where "i = inverse_mod d n"
  define s where "s = (py Q - py P) * i"
  define X where "X = s * s - px P - px Q"
  have g: "gcd d n = 1" and R: "R = Point (X mod n) ((s * (px P - X mod n) - py P) mod n)"
    using r ne by (auto simp: sum_ec_def Let_def n_def s_def X_def d_def i_def split: if_splits)
  have I: "n dvd d * i - 1" unfolding i_def using inverse_mod_dvd [of n d] N g by (simp add: n_def)
  have "s * d - (py Q - py P) = (py Q - py P) * (d * i - 1)" by (simp add: s_def algebra_simps)
  then have S: "n dvd s * d - (py Q - py P)" using I by (simp add: dvd_mult)
  have "curve_poly E X (s * (px P - X) - py P)
        = curve_poly E (px P) (py P)
          + ((curve_poly E (px Q) (py Q) + 2 * py Q * (s * d - (py Q - py P))
              + (s * d - (py Q - py P)) * (s * d - (py Q - py P)))
            - curve_poly E (px P) (py P)) * i * (X - px P)
          + (ec_a E - 2 * s * (py P - s * px P) - (px P * px Q + px P * X + px Q * X)) * (d * i - 1) * (X - px P)"
    unfolding curve_poly_def X_def d_def by (rule chord_identity)
  moreover have "n dvd curve_poly E (px P) (py P)" and "n dvd curve_poly E (px Q) (py Q)"
    using on_curve_dvd [OF P] on_curve_dvd [OF Q] by (simp_all add: n_def)
  ultimately have "n dvd curve_poly E X (s * (px P - X) - py P)"
    using S I by (simp add: dvd_add dvd_diff dvd_mult dvd_mult2)
  with R show ?thesis using reduced_point_on_curve [of E X s "px P" "py P"] by (simp add: n_def)
qed

lemma on_curve_frame:
  "ec_a E' = ec_a E \<Longrightarrow> ec_b E' = ec_b E \<Longrightarrow> ec_N E' = ec_N E \<Longrightarrow> on_curve E' = on_curve E"
  by (simp add: on_curve_def curve_poly_def fun_eq_iff)

lemma sum_ec_on_curve_Some:
  assumes N: "0 < ec_N E" and P: "on_curve E P" and Q: "on_curve E Q"
  shows "pred_option (on_curve E) (snd (sum_ec E (Some P) (Some Q)))"
proof (cases "snd (sum_ec E (Some P) (Some Q))")
  case (Some R)
  obtain E' where r: "sum_ec E (Some P) (Some Q) = (E', Some R)"
    using Some by (cases "sum_ec E (Some P) (Some Q)") simp
  have "on_curve E R"
  proof (cases "P = Q")
    case True
    with r have "sum_ec E (Some P) (Some P) = (E', Some R)" by simp
    with N P show ?thesis by (rule sum_ec_double_on_curve)
  next
    case False
    from N P Q this r show ?thesis by (rule sum_ec_chord_on_curve)
  qed
  with Some show ?thesis by simp
qed simp

text \<open>
  C20. \<open>sum\<close> keeps points on the curve: when both arguments are \<open>None\<close> or points of
  \<open>y^2 = x^3 + ax + b\<close> modulo \<open>N\<close>, so is the result, both for the tangent and for
  the chord, with the inverse computed by \<open>inverse\<close>.
\<close>

theorem sum_ec_on_curve:
  "0 < ec_N E \<Longrightarrow> pred_option (on_curve E) p \<Longrightarrow> pred_option (on_curve E) q
   \<Longrightarrow> pred_option (on_curve E) (snd (sum_ec E p q))"
  by (cases p; cases q) (simp_all add: sum_ec_on_curve_Some)

theorem sum_ec_on_curve_witness:
  "on_curve \<lparr>ec_a = 1, ec_b = 86, ec_N = 91, ec_div = 1\<rparr> (Point 3 5)
   \<and> sum_ec \<lparr>ec_a = 1, ec_b = 86, ec_N = 91, ec_div = 1\<rparr> (Some (Point 3 5)) (Some (Point 3 5))
       = (\<lparr>ec_a = 1, ec_b = 86, ec_N = 91, ec_div = 1\<rparr>, Some (Point 71 23))
   \<and> on_curve \<lparr>ec_a = 1, ec_b = 86, ec_N = 91, ec_div = 1\<rparr> (Point 71 23)"
proof -
  have P: "on_curve \<lparr>ec_a = 1, ec_b = 86, ec_N = 91, ec_div = 1\<rparr> (Point 3 5)"
    by (simp add: on_curve_def curve_poly_def)
  have run: "sum_ec \<lparr>ec_a = 1, ec_b = 86, ec_N = 91, ec_div = 1\<rparr> (Some (Point 3 5)) (Some (Point 3 5))
       = (\<lparr>ec_a = 1, ec_b = 86, ec_N = 91, ec_div = 1\<rparr>, Some (Point 71 23))"
    by (simp add: model_defs eval_simps Let_def)
  have "pred_option (on_curve \<lparr>ec_a = 1, ec_b = 86, ec_N = 91, ec_div = 1\<rparr>)
          (snd (sum_ec \<lparr>ec_a = 1, ec_b = 86, ec_N = 91, ec_div = 1\<rparr> (Some (Point 3 5)) (Some (Point 3 5))))"
    by (rule sum_ec_on_curve) (simp_all add: P)
  with P run show ?thesis by simp
qed

text \<open>
  C24. Adding two distinct points with the same \<open>x\<close>, such as \<open>P\<close> and \<open>-P\<close>, never
  gives the point at infinity: \<open>gcd(0, N) = N\<close>, so \<open>sum\<close> records the uninformative
  divisor \<open>N\<close> itself in \<open>E.div\<close> and returns \<open>None\<close>.
\<close>

theorem sum_ec_same_x:
  assumes "1 < ec_N E" and "P \<noteq> Q" and "px P = px Q"
  shows "sum_ec E (Some P) (Some Q) = (E\<lparr>ec_div := ec_N E\<rparr>, None)"
  using assms by (simp add: sum_ec_def)

theorem sum_ec_same_x_witness:
  "sum_ec \<lparr>ec_a = 1, ec_b = 86, ec_N = 91, ec_div = 1\<rparr> (Some (Point 3 5)) (Some (Point 3 86))
     = (\<lparr>ec_a = 1, ec_b = 86, ec_N = 91, ec_div = 91\<rparr>, None)"
  using sum_ec_same_x [of "\<lparr>ec_a = 1, ec_b = 86, ec_N = 91, ec_div = 1\<rparr>" "Point 3 5" "Point 3 86"]
  by simp

end
