(* ===== verification/Scalar.thy ===== *)
theory Scalar
  imports Curve
begin

text \<open>
  \<open>EllipticCurve.mult\<close> of \<^verbatim>\<open>src/main.py\<close>: the binary expansion
  \<open>bin(k)[2:]\<close>, the table of doublings \<open>powers_of_two\<close> and the accumulation over
  the digits. The method is written over an adder (the interface of
  \<open>Prelude\<close>), so that the same definition is run with the curve's \<open>sum\<close>
  (\<open>mult_ec\<close>) and with a counting adder that records which multiple of the base
  point each entry stands for. The counting instance is the abstract specification:
  it shows which scalar the method multiplies by.
\<close>

subsection \<open>The binary expansion\<close>

text \<open>\<open>bin(k)[2:]\<close> for \<open>k \<ge> 0\<close>: the digits, most significant first.\<close>

fun bin_str :: "nat \<Rightarrow> string" where
  "bin_str k =
     (if k < 2 then [if k = 1 then CHR ''1'' else CHR ''0'']
      else bin_str (k div 2) @ [if k mod 2 = 1 then CHR ''1'' else CHR ''0''])"

declare bin_str.simps [simp del] bin_str.simps [eval_simps]

subsection \<open>The method\<close>

text \<open>\<open>for _ in range(m - 1): powers_of_two.append(sum(last, last))\<close>\<close>

fun double_loop :: "('s, 'p) adder \<Rightarrow> 's \<Rightarrow> 'p option list \<Rightarrow> nat \<Rightarrow> 's \<times> 'p option list" where
  "double_loop add s pws 0 = (s, pws)"
| "double_loop add s pws (Suc n) =
     (case add s (last pws) (last pws) of
        (s', new_point) \<Rightarrow> double_loop add s' (pws @ [new_point]) n)"

text \<open>
  \<open>for i, v in enumerate(binary_expansion)\<close>: digit \<open>v\<close> at index \<open>i\<close> adds
  \<open>powers_of_two[i]\<close>, and a \<open>None\<close> sum returns \<open>None\<close> at once.
\<close>

fun acc_loop ::
  "('s, 'p) adder \<Rightarrow> 's \<Rightarrow> 'p option list \<Rightarrow> string \<Rightarrow> nat \<Rightarrow> 'p option \<Rightarrow> 's \<times> 'p option" where
  "acc_loop add s pws [] i q = (s, q)"
| "acc_loop add s pws (v # vs) i q =
     (if v = CHR ''1'' then
        (case add s (pws ! i) q of
           (s', q') \<Rightarrow> if q' = None then (s', None) else acc_loop add s' pws vs (Suc i) q')
      else acc_loop add s pws vs (Suc i) q)"

definition mult_with :: "('s, 'p) adder \<Rightarrow> 's \<Rightarrow> 'p option \<Rightarrow> nat \<Rightarrow> 's \<times> 'p option" where
  "mult_with add s p k =
     (if p = None then (s, None)
      else
        (let binary_expansion = bin_str k;
             m = length binary_expansion
         in case double_loop add s [p] (m - 1) of
              (s1, powers_of_two) \<Rightarrow> acc_loop add s1 powers_of_two binary_expansion 0 None))"

definition mult_ec :: "curve \<Rightarrow> point option \<Rightarrow> nat \<Rightarrow> curve \<times> point option" where
  "mult_ec E p k = mult_with sum_ec E p k"

declare mult_with_def [model_defs] mult_ec_def [model_defs]

subsection \<open>Reference and abstract models\<close>

text \<open>
  The reference the specification compares against: \<open>k\<close> sequential additions of
  the point to itself.
\<close>

fun naive_mult :: "('s, 'p) adder \<Rightarrow> 's \<Rightarrow> 'p option \<Rightarrow> nat \<Rightarrow> 's \<times> 'p option" where
  "naive_mult add s p 0 = (s, None)"
| "naive_mult add s p (Suc k) = (case naive_mult add s p k of (s', q) \<Rightarrow> add s' p q)"

text \<open>
  The counting adder: a point is the multiple \<open>c\<close> of the base point that it
  stands for, \<open>None\<close> is the identity, and addition never fails. It is the group
  law seen through the map \<open>cP \<mapsto> c\<close>, with the identity rules of \<open>sum\<close>.
\<close>

fun count_add :: "(unit, nat) adder" where
  "count_add u None q = (u, q)"
| "count_add u p None = (u, p)"
| "count_add u (Some a) (Some b) = (u, Some (a + b))"

text \<open>Reading a digit string most significant digit first, and least significant first.\<close>

definition digit_val :: "char \<Rightarrow> nat" where
  "digit_val c = (if c = CHR ''1'' then 1 else 0)"

definition msb_val :: "string \<Rightarrow> nat" where
  "msb_val vs = foldl (\<lambda>acc c. 2 * acc + digit_val c) 0 vs"

fun lsb_val :: "string \<Rightarrow> nat" where
  "lsb_val [] = 0"
| "lsb_val (c # cs) = digit_val c + 2 * lsb_val cs"

definition bits_ok :: "string \<Rightarrow> bool" where
  "bits_ok vs \<longleftrightarrow> list_all (\<lambda>c. c = CHR ''0'' \<or> c = CHR ''1'') vs"

subsection \<open>Digits\<close>

lemma bin_str_step:
  "2 \<le> k \<Longrightarrow> bin_str k = bin_str (k div 2) @ [if k mod 2 = 1 then CHR ''1'' else CHR ''0'']"
  by (subst bin_str.simps) simp

lemma bin_str_small:
  "k < 2 \<Longrightarrow> bin_str k = [if k = 1 then CHR ''1'' else CHR ''0'']"
  by (subst bin_str.simps) simp

lemma bits_ok_append [simp]:
  "bits_ok (xs @ ys) \<longleftrightarrow> bits_ok xs \<and> bits_ok ys"
  by (simp add: bits_ok_def)

lemma bits_ok_rev [simp]:
  "bits_ok (rev xs) \<longleftrightarrow> bits_ok xs"
  by (simp add: bits_ok_def list_all_iff)

lemma bin_str_bits_ok: "bits_ok (bin_str k)"
proof (induction k rule: bin_str.induct)
  case (1 k)
  then show ?case
    by (cases "k < 2") (simp_all add: bin_str_small bin_str_step bits_ok_def)
qed

lemma bin_str_nonempty [simp]: "bin_str k \<noteq> []"
  by (cases "k < 2") (simp_all add: bin_str_small bin_str_step)

lemma msb_val_snoc [simp]:
  "msb_val (xs @ [c]) = 2 * msb_val xs + digit_val c"
  by (simp add: msb_val_def)

lemma msb_val_single [simp]: "msb_val [c] = digit_val c"
  by (simp add: msb_val_def)

lemma lsb_val_rev: "lsb_val (rev xs) = msb_val xs"
  by (induction xs rule: rev_induct) (simp_all add: msb_val_def)

lemma digit_val_le_1: "digit_val c \<le> 1"
  by (simp add: digit_val_def)

lemma lsb_val_inj:
  "length xs = length ys \<Longrightarrow> bits_ok xs \<Longrightarrow> bits_ok ys \<Longrightarrow>
     lsb_val xs = lsb_val ys \<Longrightarrow> xs = ys"
proof (induction xs ys rule: list_induct2)
  case Nil
  then show ?case by simp
next
  case (Cons x xs y ys)
  from Cons.prems have "digit_val x + 2 * lsb_val xs = digit_val y + 2 * lsb_val ys" by simp
  with digit_val_le_1 [of x] digit_val_le_1 [of y]
  have d: "digit_val x = digit_val y" and l: "lsb_val xs = lsb_val ys" by presburger+
  from Cons.prems(1,2) d have "x = y" by (auto simp: bits_ok_def digit_val_def)
  moreover from Cons.prems l have "xs = ys" by (intro Cons.IH) (simp_all add: bits_ok_def)
  ultimately show ?case by simp
qed

lemma bin_str_leading_one:
  "1 \<le> k \<Longrightarrow> \<exists>rest. bin_str k = CHR ''1'' # rest"
proof (induction k rule: bin_str.induct)
  case (1 k)
  show ?case
  proof (cases "k < 2")
    case True
    with "1.prems" show ?thesis by (simp add: bin_str_small)
  next
    case False
    with "1.IH" obtain rest where "bin_str (k div 2) = CHR ''1'' # rest" by fastforce
    with False show ?thesis by (simp add: bin_str_step)
  qed
qed

lemma bin_str_pow2:
  "bin_str (2 ^ n) = CHR ''1'' # replicate n (CHR ''0'')"
proof (induction n)
  case 0
  then show ?case by (simp add: bin_str_small)
next
  case (Suc n)
  have "2 \<le> (2::nat) ^ Suc n" by simp
  then have "bin_str (2 ^ Suc n) = bin_str (2 ^ n) @ [CHR ''0'']"
    by (simp add: bin_str_step)
  with Suc show ?case by (simp add: replicate_append_same [symmetric])
qed

lemma msb_val_bin_str: "msb_val (bin_str k) = k"
proof (induction k rule: bin_str.induct)
  case (1 k)
  show ?case
  proof (cases "k < 2")
    case True
    then show ?thesis by (auto simp: bin_str_small digit_val_def)
  next
    case False
    with "1.IH" have "msb_val (bin_str (k div 2)) = k div 2" by simp
    with False show ?thesis by (simp add: bin_str_step digit_val_def) presburger
  qed
qed

lemma lsb_val_as_msb: "lsb_val xs = msb_val (rev xs)"
  using lsb_val_rev [of "rev xs"] by simp

subsection \<open>The table of doublings\<close>

lemma double_loop_length:
  "length (snd (double_loop add s pws n)) = length pws + n"
  by (induction n arbitrary: s pws) (simp_all split: prod.split)

lemma double_loop_prefix:
  "i < length pws \<Longrightarrow> snd (double_loop add s pws n) ! i = pws ! i"
  by (induction n arbitrary: s pws) (simp_all add: nth_append split: prod.split)

lemma double_loop_first:
  "snd (double_loop add s [p] n) ! 0 = p"
  using double_loop_prefix [of 0 "[p]"] by simp

text \<open>An invariant of the state that every addition keeps is kept by both loops.\<close>

lemma double_loop_inv:
  assumes step: "\<And>s x y. I s \<Longrightarrow> I (fst (add s x y))" and "I s"
  shows "I (fst (double_loop add s pws n))"
  using assms(2)
proof (induction n arbitrary: s pws)
  case (Suc n)
  obtain s' np where a: "add s (last pws) (last pws) = (s', np)" by fastforce
  have "I (fst (add s (last pws) (last pws)))" by (rule step [OF Suc.prems])
  with a have "I s'" by simp
  with Suc.IH a show ?case by simp
qed simp

lemma acc_loop_inv:
  assumes step: "\<And>s x y. I s \<Longrightarrow> I (fst (add s x y))" and "I s"
  shows "I (fst (acc_loop add s pws vs i q))"
  using assms(2)
proof (induction vs arbitrary: s i q)
  case (Cons v vs)
  obtain s' q' where a: "add s (pws ! i) q = (s', q')" by fastforce
  have "I (fst (add s (pws ! i) q))" by (rule step [OF Cons.prems])
  with a have "I s'" by simp
  with Cons.IH Cons.prems a show ?case by simp
qed simp

lemma mult_with_inv:
  assumes step: "\<And>s x y. I s \<Longrightarrow> I (fst (add s x y))" and "I s"
  shows "I (fst (mult_with add s p k))"
proof -
  obtain s1 pws where d: "double_loop add s [p] (length (bin_str k) - 1) = (s1, pws)"
    by fastforce
  have "I (fst (double_loop add s [p] (length (bin_str k) - 1)))"
    by (rule double_loop_inv [OF step assms(2)])
  with d have "I s1" by simp
  then show ?thesis
    using assms(2) acc_loop_inv [where I = I and add = add, OF step] d
    by (simp add: mult_with_def Let_def)
qed

text \<open>
  An invariant of the state together with a predicate on points that every addition
  keeps is kept by both loops; the table of doublings holds only such points.
\<close>

lemma double_loop_pinv:
  assumes step: "\<And>s x y. I s \<Longrightarrow> Q x \<Longrightarrow> Q y \<Longrightarrow> I (fst (add s x y)) \<and> Q (snd (add s x y))"
    and "I s" and "pws \<noteq> []" and "list_all Q pws"
  shows "I (fst (double_loop add s pws n)) \<and> list_all Q (snd (double_loop add s pws n))"
  using assms(2-4)
proof (induction n arbitrary: s pws)
  case (Suc n)
  obtain s' np where a: "add s (last pws) (last pws) = (s', np)" by fastforce
  have "Q (last pws)" using Suc.prems by (simp add: list_all_iff)
  with Suc.prems(1) have "I (fst (add s (last pws) (last pws))) \<and> Q (snd (add s (last pws) (last pws)))"
    by (intro step)
  with a have "I s'" and "Q np" by simp_all
  with Suc.IH [of s' "pws @ [np]"] Suc.prems a show ?case by simp
qed simp

lemma acc_loop_pinv:
  assumes step: "\<And>s x y. I s \<Longrightarrow> Q x \<Longrightarrow> Q y \<Longrightarrow> I (fst (add s x y)) \<and> Q (snd (add s x y))"
    and "I s" and "Q q" and "list_all Q pws" and "i + length vs \<le> length pws"
  shows "I (fst (acc_loop add s pws vs i q)) \<and> Q (snd (acc_loop add s pws vs i q))"
  using assms(2-5)
proof (induction vs arbitrary: s i q)
  case (Cons v vs)
  obtain s' q' where a: "add s (pws ! i) q = (s', q')" by fastforce
  have "Q (pws ! i)" using Cons.prems by (simp add: list_all_length)
  then have "I (fst (add s (pws ! i) q)) \<and> Q (snd (add s (pws ! i) q))"
    using Cons.prems(1,2) by (intro step)
  with a have "I s'" and "Q q'" by simp_all
  with Cons.IH [of s' q' "Suc i"] Cons.IH [of s q "Suc i"] Cons.prems a show ?case by auto
qed simp

lemma mult_with_pinv:
  assumes step: "\<And>s x y. I s \<Longrightarrow> Q x \<Longrightarrow> Q y \<Longrightarrow> I (fst (add s x y)) \<and> Q (snd (add s x y))"
    and "I s" and "Q p" and "Q None"
  shows "I (fst (mult_with add s p k)) \<and> Q (snd (mult_with add s p k))"
proof -
  obtain s1 pws where d: "double_loop add s [p] (length (bin_str k) - 1) = (s1, pws)"
    by fastforce
  have "I (fst (double_loop add s [p] (length (bin_str k) - 1)))
        \<and> list_all Q (snd (double_loop add s [p] (length (bin_str k) - 1)))"
    by (rule double_loop_pinv [where I = I and Q = Q, OF step]) (simp_all add: assms(2,3))
  with d have "I s1" and "list_all Q pws" by simp_all
  moreover have "0 + length (bin_str k) \<le> length pws"
    using double_loop_length [of add s "[p]" "length (bin_str k) - 1"] d
    by (simp add: Suc_leI length_greater_0_conv)
  ultimately have "I (fst (acc_loop add s1 pws (bin_str k) 0 None))
                   \<and> Q (snd (acc_loop add s1 pws (bin_str k) 0 None))"
    using assms(4) by (intro acc_loop_pinv [where I = I and Q = Q, OF step])
  with assms(2,4) d show ?thesis by (simp add: mult_with_def Let_def)
qed

text \<open>Two runs from states related by \<open>R\<close> give the same points when every addition does.\<close>

lemma double_loop_sim:
  assumes sim: "\<And>s t x y. R s t \<Longrightarrow> R (fst (add s x y)) (fst (add t x y)) \<and> snd (add s x y) = snd (add t x y)"
    and "R s t"
  shows "R (fst (double_loop add s pws n)) (fst (double_loop add t pws n))
         \<and> snd (double_loop add s pws n) = snd (double_loop add t pws n)"
  using assms(2)
proof (induction n arbitrary: s t pws)
  case (Suc n)
  obtain s' a where a: "add s (last pws) (last pws) = (s', a)" by fastforce
  obtain t' b where b: "add t (last pws) (last pws) = (t', b)" by fastforce
  from Suc.prems have "R (fst (add s (last pws) (last pws))) (fst (add t (last pws) (last pws)))
      \<and> snd (add s (last pws) (last pws)) = snd (add t (last pws) (last pws))" by (rule sim)
  with a b have "R s' t'" and "a = b" by simp_all
  with Suc.IH [of s' t' "pws @ [a]"] a b show ?case by simp
qed simp

lemma acc_loop_sim:
  assumes sim: "\<And>s t x y. R s t \<Longrightarrow> R (fst (add s x y)) (fst (add t x y)) \<and> snd (add s x y) = snd (add t x y)"
    and "R s t"
  shows "R (fst (acc_loop add s pws vs i q)) (fst (acc_loop add t pws vs i q))
         \<and> snd (acc_loop add s pws vs i q) = snd (acc_loop add t pws vs i q)"
  using assms(2)
proof (induction vs arbitrary: s t i q)
  case (Cons v vs)
  obtain s' a where a: "add s (pws ! i) q = (s', a)" by fastforce
  obtain t' b where b: "add t (pws ! i) q = (t', b)" by fastforce
  from Cons.prems have "R (fst (add s (pws ! i) q)) (fst (add t (pws ! i) q))
      \<and> snd (add s (pws ! i) q) = snd (add t (pws ! i) q)" by (rule sim)
  with a b have "R s' t'" and "a = b" by simp_all
  with Cons.IH [of s' t' "Suc i" a] Cons.IH [of s t "Suc i" q] Cons.prems a b show ?case by simp
qed simp

lemma mult_with_sim:
  assumes sim: "\<And>s t x y. R s t \<Longrightarrow> R (fst (add s x y)) (fst (add t x y)) \<and> snd (add s x y) = snd (add t x y)"
    and "R s t"
  shows "R (fst (mult_with add s p k)) (fst (mult_with add t p k))
         \<and> snd (mult_with add s p k) = snd (mult_with add t p k)"
proof -
  let ?n = "length (bin_str k) - 1"
  obtain s1 pws where d1: "double_loop add s [p] ?n = (s1, pws)" by fastforce
  obtain t1 pws' where d2: "double_loop add t [p] ?n = (t1, pws')" by fastforce
  have "R (fst (double_loop add s [p] ?n)) (fst (double_loop add t [p] ?n))
        \<and> snd (double_loop add s [p] ?n) = snd (double_loop add t [p] ?n)"
    by (rule double_loop_sim [where R = R and add = add], rule sim, assumption, rule assms(2))
  with d1 d2 have "R s1 t1" and "pws' = pws" by simp_all
  have "R (fst (acc_loop add s1 pws (bin_str k) 0 None)) (fst (acc_loop add t1 pws (bin_str k) 0 None))
         \<and> snd (acc_loop add s1 pws (bin_str k) 0 None) = snd (acc_loop add t1 pws (bin_str k) 0 None)"
    by (rule acc_loop_sim [where R = R and add = add], rule sim, assumption, rule \<open>R s1 t1\<close>)
  with assms(2) d1 d2 \<open>pws' = pws\<close> show ?thesis by (simp add: mult_with_def Let_def)
qed

subsection \<open>The counting model\<close>

lemma double_loop_count_nth:
  "pws \<noteq> [] \<Longrightarrow> last pws = Some v \<Longrightarrow> j \<le> n \<Longrightarrow>
     snd (double_loop count_add () pws n) ! (length pws - 1 + j) = Some (v * 2 ^ j)"
proof (induction n arbitrary: pws v j)
  case 0
  then show ?case by (simp add: last_conv_nth)
next
  case (Suc n)
  show ?case
  proof (cases j)
    case 0
    with Suc.prems show ?thesis
      by (simp add: double_loop_prefix last_conv_nth nth_append)
  next
    fix j' assume j: "j = Suc j'"
    have idx: "length pws - 1 + j = length (pws @ [Some (v + v)]) - 1 + j'"
      using j Suc.prems(1) by (cases pws) auto
    have step: "snd (double_loop count_add () pws (Suc n))
        = snd (double_loop count_add () (pws @ [Some (v + v)]) n)"
      using Suc.prems(2) by simp
    have "snd (double_loop count_add () pws (Suc n)) ! (length pws - 1 + j)
        = snd (double_loop count_add () (pws @ [Some (v + v)]) n)
            ! (length (pws @ [Some (v + v)]) - 1 + j')"
      by (simp only: step idx)
    also have "\<dots> = Some ((v + v) * 2 ^ j')"
      using j Suc.prems by (intro Suc.IH) simp_all
    also have "\<dots> = Some (v * 2 ^ j)"
      by (simp add: j)
    finally show ?thesis .
  qed
qed

lemma acc_loop_count:
  "(\<And>j. j < length vs \<Longrightarrow> pws ! (i + j) = Some (c * 2 ^ (i + j))) \<Longrightarrow>
     acc_loop count_add () pws vs i (Some a) = ((), Some (a + c * 2 ^ i * lsb_val vs))"
proof (induction vs arbitrary: i a)
  case Nil
  then show ?case by simp
next
  case (Cons v vs)
  have pw: "pws ! i = Some (c * 2 ^ i)" using Cons.prems [of 0] by simp
  have ih: "\<And>a. acc_loop count_add () pws vs (Suc i) (Some a)
              = ((), Some (a + c * 2 ^ Suc i * lsb_val vs))"
    using Cons.prems [of "Suc _"] by (intro Cons.IH) simp
  show ?case
    using pw ih by (simp add: digit_val_def algebra_simps)
qed

lemma mult_with_count:
  assumes "1 \<le> k"
  shows "mult_with count_add () (Some c) k = ((), Some (c * lsb_val (bin_str k)))"
proof -
  obtain rest where b: "bin_str k = CHR ''1'' # rest"
    using bin_str_leading_one [OF assms] by blast
  define pws where "pws = snd (double_loop count_add () [Some c] (length rest))"
  have pw: "\<And>j. j \<le> length rest \<Longrightarrow> pws ! j = Some (c * 2 ^ j)"
    using double_loop_count_nth [of "[Some c]" c] by (simp add: pws_def)
  have "acc_loop count_add () pws rest 1 (Some c) = ((), Some (c + c * 2 ^ 1 * lsb_val rest))"
    using pw by (intro acc_loop_count) simp
  moreover have "double_loop count_add () [Some c] (length rest) = ((), pws)"
    by (simp add: pws_def prod_eq_iff)
  ultimately show ?thesis
    using pw [of 0] b by (simp add: mult_with_def digit_val_def algebra_simps)
qed

lemma naive_mult_count:
  "naive_mult count_add () (Some c) k = ((), if k = 0 then None else Some (c * k))"
  by (induction k) (auto simp: algebra_simps)

subsection \<open>The method on the curve\<close>

lemma acc_loop_zeros:
  "acc_loop add s pws (replicate n (CHR ''0'')) i q = (s, q)"
  by (induction n arbitrary: i) simp_all

lemma sum_ec_None_result:
  assumes "sum_ec E p (Some Q) = (E', None)"
  shows "ec_div E' \<noteq> 1"
proof (cases p)
  case None
  with assms show ?thesis by simp
next
  case (Some P)
  show ?thesis
  proof (cases "sum_failure (ec_N E) P Q")
    case None
    with assms Some show ?thesis by (auto dest: sum_ec_succeeds)
  next
    case (Some g)
    with assms \<open>p = Some P\<close> show ?thesis
      by (auto simp: sum_ec_fails dest: sum_failure_ne_one)
  qed
qed

lemma acc_loop_sum_failure:
  "q \<noteq> None \<Longrightarrow> acc_loop sum_ec E pws vs i q = (E', None) \<Longrightarrow> ec_div E' \<noteq> 1"
proof (induction vs arbitrary: E i q)
  case Nil
  then show ?case by simp
next
  case (Cons v vs)
  obtain E1 q1 where a: "sum_ec E (pws ! i) q = (E1, q1)" by fastforce
  from Cons.prems(1) obtain Q where q: "q = Some Q" by blast
  show ?case
  proof (cases "v = CHR ''1''")
    case True
    show ?thesis
    proof (cases "q1 = None")
      case True
      with a q \<open>v = CHR ''1''\<close> Cons.prems(2) show ?thesis
        by (auto dest: sum_ec_None_result)
    next
      case False
      from False a \<open>v = CHR ''1''\<close> Cons.prems(2)
      have "acc_loop sum_ec E1 pws vs (Suc i) q1 = (E', None)" by (auto split: if_splits)
      with False show ?thesis by (rule Cons.IH)
    qed
  next
    case False
    with Cons.prems(2) have "acc_loop sum_ec E pws vs (Suc i) q = (E', None)" by simp
    with Cons.prems(1) show ?thesis by (rule Cons.IH)
  qed
qed

lemma mult_ec_expand:
  assumes "1 \<le> k"
  obtains rest E1 pws where "bin_str k = CHR ''1'' # rest"
    and "double_loop sum_ec E [Some P] (length rest) = (E1, pws)"
    and "pws ! 0 = Some P"
    and "mult_ec E (Some P) k = acc_loop sum_ec E1 pws rest 1 (Some P)"
proof -
  obtain rest where b: "bin_str k = CHR ''1'' # rest"
    using bin_str_leading_one [OF assms] by blast
  obtain E1 pws where d: "double_loop sum_ec E [Some P] (length rest) = (E1, pws)"
    by fastforce
  have p0: "pws ! 0 = Some P"
    using double_loop_first [of sum_ec E "Some P" "length rest"] d by simp
  have "mult_ec E (Some P) k = acc_loop sum_ec E1 pws rest 1 (Some P)"
    using b d p0 by (simp add: mult_ec_def mult_with_def)
  with b d p0 show ?thesis by (rule that)
qed

lemma mult_ec_None_failure:
  assumes "1 \<le> k" and "snd (mult_ec E (Some P) k) = None"
  shows "ec_div (fst (mult_ec E (Some P) k)) \<noteq> 1"
proof -
  obtain rest E1 pws where
    m: "mult_ec E (Some P) k = acc_loop sum_ec E1 pws rest 1 (Some P)"
    using mult_ec_expand [OF assms(1)] by metis
  with assms(2) have "acc_loop sum_ec E1 pws rest 1 (Some P)
      = (fst (mult_ec E (Some P) k), None)"
    by (metis prod.collapse)
  then show ?thesis by (rule acc_loop_sum_failure [rotated]) simp
qed

lemma mult_ec_curve_inv:
  "curve_inv E \<Longrightarrow> curve_inv (fst (mult_ec E p k))"
  unfolding mult_ec_def by (rule mult_with_inv [where I = curve_inv]) (rule sum_ec_curve_inv)

lemma mult_ec_div_sticky:
  "ec_div E \<noteq> 1 \<Longrightarrow> ec_div (fst (mult_ec E p k)) \<noteq> 1"
  unfolding mult_ec_def
  by (rule mult_with_inv [where I = "\<lambda>E. ec_div E \<noteq> 1"]) (rule sum_ec_div_sticky)

lemma mult_ec_frame:
  "ec_a (fst (mult_ec E p k)) = ec_a E \<and> ec_b (fst (mult_ec E p k)) = ec_b E
     \<and> ec_N (fst (mult_ec E p k)) = ec_N E"
  unfolding mult_ec_def
  by (rule mult_with_inv [where I = "\<lambda>E'. ec_a E' = ec_a E \<and> ec_b E' = ec_b E \<and> ec_N E' = ec_N E"])
     simp_all

text \<open>After a failed doubling the table holds only \<open>None\<close>, which the accumulation skips.\<close>

lemma double_loop_after_None:
  "pws \<noteq> [] \<Longrightarrow> last pws = None \<Longrightarrow> double_loop sum_ec s pws n = (s, pws @ replicate n None)"
proof (induction n arbitrary: pws)
  case (Suc n)
  then have "double_loop sum_ec s (pws @ [None]) n = (s, pws @ [None] @ replicate n None)" by simp
  with Suc.prems show ?case by (simp add: replicate_append_same [symmetric])
qed simp

lemma acc_loop_None_tail:
  "(\<And>j. i \<le> j \<Longrightarrow> j < i + length vs \<Longrightarrow> pws ! j = None) \<Longrightarrow> q \<noteq> None \<Longrightarrow> acc_loop sum_ec s pws vs i q = (s, q)"
proof (induction vs arbitrary: i)
  case (Cons v vs)
  have "acc_loop sum_ec s pws vs (Suc i) q = (s, q)" using Cons by simp
  with Cons.prems show ?case by simp
qed simp

text \<open>The multiples of a point of the curve are points of the curve.\<close>

lemma sum_ec_on_curve_frame:
  assumes "0 < ec_N E" and I: "ec_a s = ec_a E \<and> ec_b s = ec_b E \<and> ec_N s = ec_N E"
    and "pred_option (on_curve E) x" and "pred_option (on_curve E) y"
  shows "(ec_a (fst (sum_ec s x y)) = ec_a E \<and> ec_b (fst (sum_ec s x y)) = ec_b E
            \<and> ec_N (fst (sum_ec s x y)) = ec_N E)
         \<and> pred_option (on_curve E) (snd (sum_ec s x y))"
proof -
  have oc: "on_curve s = on_curve E" using I by (intro on_curve_frame) simp_all
  have "pred_option (on_curve s) (snd (sum_ec s x y))"
  proof (cases x)
    case (Some P)
    show ?thesis
    proof (cases y)
      case (Some Q)
      have "0 < ec_N s" "on_curve s P" "on_curve s Q"
        using assms \<open>x = Some P\<close> \<open>y = Some Q\<close> oc by simp_all
      then have "pred_option (on_curve s) (snd (sum_ec s (Some P) (Some Q)))"
        by (rule sum_ec_on_curve_Some)
      with \<open>x = Some P\<close> \<open>y = Some Q\<close> show ?thesis by simp
    qed (use assms Some oc in simp)
  qed (use assms oc in simp)
  with I oc show ?thesis by simp
qed

lemma mult_ec_on_curve:
  assumes "0 < ec_N E" and "pred_option (on_curve E) p"
  shows "pred_option (on_curve E) (snd (mult_ec E p k))"
proof -
  have "(ec_a (fst (mult_ec E p k)) = ec_a E \<and> ec_b (fst (mult_ec E p k)) = ec_b E
           \<and> ec_N (fst (mult_ec E p k)) = ec_N E)
        \<and> pred_option (on_curve E) (snd (mult_ec E p k))"
    unfolding mult_ec_def
    by (rule mult_with_pinv [where I = "\<lambda>s. ec_a s = ec_a E \<and> ec_b s = ec_b E \<and> ec_N s = ec_N E"])
       (simp_all add: assms sum_ec_on_curve_frame)
  then show ?thesis by simp
qed

subsection \<open>Properties of the scalar multiplication\<close>

text \<open>
  Doubling the multiplier appends the digit 0 to \<open>bin(k)[2:]\<close>: the table grows by
  one entry, which the accumulation never reads, and the extra doubling changes no field
  of the curve object but \<open>div\<close>.
\<close>

lemma bin_str_double:
  "1 \<le> k \<Longrightarrow> bin_str (2 * k) = bin_str k @ ''0''"
  by (subst bin_str.simps) simp

lemma double_loop_snoc:
  "double_loop add s pws (Suc n)
     = (case double_loop add s pws n of
          (s1, pws1) \<Rightarrow> (case add s1 (last pws1) (last pws1) of (s2, x) \<Rightarrow> (s2, pws1 @ [x])))"
proof (induction n arbitrary: s pws)
  case (Suc n)
  obtain s' np where "add s (last pws) (last pws) = (s', np)" by fastforce
  with Suc.IH [of s' "pws @ [np]"] show ?case by simp
qed (simp split: prod.split)

lemma acc_loop_snoc_zero:
  "acc_loop add s pws (vs @ [CHR ''0'']) i q = acc_loop add s pws vs i q"
  by (induction vs arbitrary: s i q) (simp_all split: prod.split)

lemma acc_loop_extend_table:
  "i + length vs \<le> length pws \<Longrightarrow> acc_loop add s (pws @ xs) vs i q = acc_loop add s pws vs i q"
  by (induction vs arbitrary: s i q) (simp_all add: nth_append split: prod.split)

lemma sum_ec_div_rel:
  assumes "s\<lparr>ec_div := 1\<rparr> = t\<lparr>ec_div := 1\<rparr>"
  shows "(fst (sum_ec s x y))\<lparr>ec_div := 1\<rparr> = (fst (sum_ec t x y))\<lparr>ec_div := 1\<rparr>
         \<and> snd (sum_ec s x y) = snd (sum_ec t x y)"
proof -
  have t: "t = s\<lparr>ec_div := ec_div t\<rparr>" using assms
    by (metis curve.surjective curve.update_convs(4))
  show ?thesis
    using sum_ec_div_sim [of s x y "ec_div t"] sum_ec_point_indep_div [of "ec_div t" s x y]
    by (subst (1 2) t) simp
qed

lemma sum_ec_only_div:
  "(fst (sum_ec s x y))\<lparr>ec_div := 1\<rparr> = s\<lparr>ec_div := 1\<rparr>"
  by (simp add: sum_ec_def Let_def split: option.splits)

text \<open>
  C4. Which multiple the method computes: in the counting model, where the entry
  \<open>powers_of_two[i]\<close> stands for \<open>2^i\<close> times the base point, \<open>mult(cP, k)\<close> is
  \<open>c\<close> times the number whose binary digits are those of \<open>k\<close> read in reverse.
  The digit string is read most significant digit first while the table is indexed
  from the least significant doubling, so for example \<open>mult(P, 2) = P\<close>,
  \<open>mult(P, 6) = 3P\<close> and \<open>mult(P, 11) = 13P\<close>.
\<close>

theorem mult_computes_reversed_scalar:
  "1 \<le> k \<Longrightarrow> mult_with count_add () (Some c) k = ((), Some (c * msb_val (rev (bin_str k))))"
  using mult_with_count [of k c] by (simp add: lsb_val_as_msb)

theorem mult_computes_reversed_scalar_witness:
  "mult_with count_add () (Some 1) 6 = ((), Some 3)"
proof -
  have "mult_with count_add () (Some 1) 6 = ((), Some (1 * msb_val (rev (bin_str 6))))"
    by (rule mult_computes_reversed_scalar) simp
  then show ?thesis by (simp add: eval_simps msb_val_def digit_val_def)
qed

text \<open>
  C5. Against the reference the specification asks for (\<open>k\<close> sequential
  additions), the method agrees exactly for the multipliers whose binary expansion is
  a palindrome, and for no other: in the counting model with a non-zero base,
  \<open>mult\<close> equals \<open>naive_mult\<close> at \<open>k \<ge> 1\<close> if and only if
  \<open>bin(k)[2:]\<close> reads the same backwards.
\<close>

theorem mult_matches_naive_iff_palindrome:
  assumes "0 < c" and "1 \<le> k"
  shows "mult_with count_add () (Some c) k = naive_mult count_add () (Some c) k
           \<longleftrightarrow> rev (bin_str k) = bin_str k"
proof -
  have k: "lsb_val (rev (bin_str k)) = k"
    by (simp add: lsb_val_rev msb_val_bin_str)
  have "mult_with count_add () (Some c) k = naive_mult count_add () (Some c) k
          \<longleftrightarrow> lsb_val (bin_str k) = lsb_val (rev (bin_str k))"
    using assms k by (simp add: mult_with_count naive_mult_count)
  also have "\<dots> \<longleftrightarrow> rev (bin_str k) = bin_str k"
    using lsb_val_inj [of "bin_str k" "rev (bin_str k)"] bin_str_bits_ok [of k] by auto
  finally show ?thesis .
qed

theorem mult_matches_naive_iff_palindrome_witness:
  "mult_with count_add () (Some 1) 2 \<noteq> naive_mult count_add () (Some 1) 2
   \<and> mult_with count_add () (Some 1) 5 = naive_mult count_add () (Some 1) 5"
  using mult_matches_naive_iff_palindrome [of 1 2] mult_matches_naive_iff_palindrome [of 1 5]
  by (simp add: eval_simps)

text \<open>
  C6. A power of two as multiplier: \<open>mult(P, 2^n)\<close> returns \<open>P\<close> itself on every
  curve, for every point and every \<open>n\<close>; the doublings it computes are never used.
\<close>

theorem mult_ec_power_of_two:
  "snd (mult_ec E (Some P) (2 ^ n)) = Some P"
proof -
  have "1 \<le> (2::nat) ^ n" by simp
  then obtain rest E1 pws where b: "bin_str (2 ^ n) = CHR ''1'' # rest"
    and m: "mult_ec E (Some P) (2 ^ n) = acc_loop sum_ec E1 pws rest 1 (Some P)"
    by (rule mult_ec_expand)
  from b have "rest = replicate n (CHR ''0'')" by (simp add: bin_str_pow2)
  with m show ?thesis by (simp add: acc_loop_zeros)
qed

text \<open>
  C7. No silent \<open>None\<close>: when \<open>mult\<close> of a point by \<open>k \<ge> 1\<close> on a curve object
  that satisfies the invariant returns \<open>None\<close>, an addition has failed and the
  object's \<open>div\<close> field holds a divisor of the modulus greater than 1.
\<close>

theorem mult_ec_None_records_divisor:
  assumes "curve_inv E" and "1 \<le> k" and "snd (mult_ec E (Some P) k) = None"
  shows "1 < ec_div (fst (mult_ec E (Some P) k)) \<and> ec_div (fst (mult_ec E (Some P) k)) dvd ec_N E"
proof -
  have "ec_div (fst (mult_ec E (Some P) k)) \<noteq> 1"
    using assms(2,3) by (rule mult_ec_None_failure)
  moreover have "curve_inv (fst (mult_ec E (Some P) k))"
    using assms(1) by (rule mult_ec_curve_inv)
  ultimately show ?thesis
    using mult_ec_frame [of E "Some P" k] by (simp add: curve_inv_def)
qed

theorem mult_ec_None_records_divisor_witness:
  "curve_inv (new_curve 1 1 15) \<and> 1 \<le> (3::nat)
   \<and> snd (mult_ec (new_curve 1 1 15) (Some (Point 2 1)) 3) = None
   \<and> 1 < ec_div (fst (mult_ec (new_curve 1 1 15) (Some (Point 2 1)) 3))
   \<and> ec_div (fst (mult_ec (new_curve 1 1 15) (Some (Point 2 1)) 3)) dvd ec_N (new_curve 1 1 15)"
proof -
  have inv: "curve_inv (new_curve 1 1 15)" by (simp add: curve_inv_def new_curve_def)
  have run: "mult_ec (new_curve 1 1 15) (Some (Point 2 1)) 3
      = (\<lparr>ec_a = 1, ec_b = 1, ec_N = 15, ec_div = 5\<rparr>, None)"
    by (simp add: model_defs eval_simps Let_def)
  show ?thesis
    using mult_ec_None_records_divisor [OF inv, of 3 "Point 2 1"] inv run by simp
qed

text \<open>
  C15. The binary expansion round trip: reading \<open>bin(k)[2:]\<close> back most
  significant digit first gives \<open>k\<close>; the string holds only the digits 0 and 1,
  and for \<open>k \<ge> 1\<close> it starts with 1, which is why the first digit processed
  always adds the base point into the empty accumulator.
\<close>

theorem bin_str_roundtrip:
  "msb_val (bin_str k) = k \<and> bits_ok (bin_str k) \<and> (1 \<le> k \<longrightarrow> hd (bin_str k) = CHR ''1'')"
  using msb_val_bin_str [of k] bin_str_bits_ok [of k] bin_str_leading_one [of k] by auto

theorem bin_str_roundtrip_witness:
  "bin_str 6 = ''110'' \<and> msb_val ''110'' = 6 \<and> hd ''110'' = CHR ''1''"
proof -
  have b: "bin_str 6 = ''110''" by (simp add: eval_simps)
  show ?thesis using bin_str_roundtrip [of 6] b by simp
qed

text \<open>
  C22. A failed doubling does not stop \<open>mult\<close>: when \<open>sum(P, P)\<close> fails with the
  divisor \<open>g\<close>, \<open>mult(P, k)\<close> for every \<open>k \<ge> 2\<close> records \<open>g\<close> in \<open>E.div\<close> and still
  returns the point \<open>P\<close> itself, not \<open>None\<close>: the rest of the table is \<open>None\<close>, and
  \<open>sum(None, q)\<close> gives \<open>q\<close> back.
\<close>

theorem mult_ec_first_doubling_fails:
  assumes f: "sum_failure (ec_N E) P P = Some g" and k: "2 \<le> k"
  shows "mult_ec E (Some P) k = (E\<lparr>ec_div := g\<rparr>, Some P)"
proof -
  obtain rest where b: "bin_str k = CHR ''1'' # rest" using bin_str_leading_one [of k] k by auto
  have "2 \<le> length (bin_str k)" using k bin_str_step [of k] bin_str_nonempty [of "k div 2"]
    by (simp add: Suc_le_eq)
  define n where "n = length (bin_str k) - 2"
  from \<open>2 \<le> length (bin_str k)\<close> have n: "length (bin_str k) - 1 = Suc n"
    unfolding n_def by arith
  have s: "sum_ec E (Some P) (Some P) = (E\<lparr>ec_div := g\<rparr>, None)" using f by (rule sum_ec_fails)
  have d: "double_loop sum_ec E [Some P] (length (bin_str k) - 1)
           = (E\<lparr>ec_div := g\<rparr>, [Some P, None] @ replicate n None)"
    using n s double_loop_after_None [of "[Some P, None]" "E\<lparr>ec_div := g\<rparr>" n] by simp
  have "acc_loop sum_ec (E\<lparr>ec_div := g\<rparr>) ([Some P, None] @ replicate n None) rest 1 (Some P)
        = (E\<lparr>ec_div := g\<rparr>, Some P)"
  proof (rule acc_loop_None_tail)
    fix j assume "1 \<le> j" "j < 1 + length rest"
    moreover have "length rest = Suc n" using n b by simp
    ultimately show "([Some P, None] @ replicate n None) ! j = None"
      by (auto simp: nth_append nth_Cons')
  qed simp
  with d b show ?thesis by (simp add: mult_ec_def mult_with_def)
qed

theorem mult_ec_first_doubling_fails_witness:
  "sum_failure (ec_N (new_curve 1 1 15)) (Point 2 5) (Point 2 5) = Some 5
   \<and> mult_ec (new_curve 1 1 15) (Some (Point 2 5)) 6
       = (\<lparr>ec_a = 1, ec_b = 1, ec_N = 15, ec_div = 5\<rparr>, Some (Point 2 5))"
proof -
  have f: "sum_failure (ec_N (new_curve 1 1 15)) (Point 2 5) (Point 2 5) = Some 5"
    by (simp add: sum_failure_def new_curve_def eval_simps)
  have "mult_ec (new_curve 1 1 15) (Some (Point 2 5)) 6
        = ((new_curve 1 1 15)\<lparr>ec_div := 5\<rparr>, Some (Point 2 5))"
    using f by (rule mult_ec_first_doubling_fails) simp
  with f show ?thesis by (simp add: new_curve_def)
qed

text \<open>
  C23. Doubling the multiplier does not change the result: on every curve object, for
  every point and every \<open>k\<close>, \<open>mult(P, 2k)\<close> returns the same point as
  \<open>mult(P, k)\<close>; for instance \<open>mult(P, 6)\<close> returns \<open>mult(P, 3)\<close>. The trailing
  digit 0 of \<open>bin(2k)\<close> adds nothing, and the one extra doubling it causes may record a
  divisor in \<open>E.div\<close> but cannot change the points, which never depend on \<open>div\<close>.
\<close>

theorem mult_ec_double_scalar:
  "snd (mult_ec E p (2 * k)) = snd (mult_ec E p k)"
proof (cases "p = None \<or> k = 0")
  case True
  then show ?thesis by (auto simp: mult_ec_def mult_with_def)
next
  case False
  then have k: "1 \<le> k" by simp
  from False obtain P where p: "p = Some P" by auto
  let ?R = "\<lambda>s t :: curve. s\<lparr>ec_div := 1\<rparr> = t\<lparr>ec_div := 1\<rparr>"
  define n where "n = length (bin_str k) - 1"
  have len: "length (bin_str k) = Suc n" unfolding n_def using bin_str_nonempty [of k]
    by (simp add: length_greater_0_conv)
  obtain s1 pws where d: "double_loop sum_ec E [p] n = (s1, pws)" by fastforce
  obtain s2 x where a: "sum_ec s1 (last pws) (last pws) = (s2, x)" by fastforce
  have lp: "length pws = Suc n" using double_loop_length [of sum_ec E "[p]" n] d by simp
  have "double_loop sum_ec E [p] (Suc n) = (s2, pws @ [x])"
    by (subst double_loop_snoc) (simp add: d a)
  then have "mult_ec E p (2 * k) = acc_loop sum_ec s2 (pws @ [x]) (bin_str k @ ''0'') 0 None"
    using p len by (simp add: mult_ec_def mult_with_def bin_str_double [OF k] del: double_loop.simps)
  also have "\<dots> = acc_loop sum_ec s2 pws (bin_str k) 0 None"
    using lp len by (simp add: acc_loop_snoc_zero acc_loop_extend_table)
  finally have m2: "mult_ec E p (2 * k) = acc_loop sum_ec s2 pws (bin_str k) 0 None" .
  have m1: "mult_ec E p k = acc_loop sum_ec s1 pws (bin_str k) 0 None"
    using p d by (simp add: mult_ec_def mult_with_def n_def)
  have "?R s2 s1" using sum_ec_only_div [of s1 "last pws" "last pws"] a by simp
  then have "snd (acc_loop sum_ec s2 pws (bin_str k) 0 None) = snd (acc_loop sum_ec s1 pws (bin_str k) 0 None)"
    using acc_loop_sim [where R = ?R and add = sum_ec, OF sum_ec_div_rel] by blast
  with m1 m2 show ?thesis by simp
qed

text \<open>
  C25. The table \<open>powers_of_two\<close> that \<open>mult\<close> builds is the one the
  specification describes: \<open>P, 2P, 4P, \<dots>, 2^(m-1) P\<close> with \<open>m = len(bin(k)[2:])\<close>,
  one entry per digit, so every index the accumulation reads is in range. Stated in
  the counting model, where the entry \<open>Some c\<close> stands for \<open>cP\<close>.
\<close>

theorem doubling_table:
  "snd (double_loop count_add () [Some c] (length (bin_str k) - 1))
     = map (\<lambda>j. Some (c * 2 ^ j)) [0..<length (bin_str k)]"
proof (rule nth_equalityI)
  have m: "0 < length (bin_str k)" by simp
  then show "length (snd (double_loop count_add () [Some c] (length (bin_str k) - 1)))
             = length (map (\<lambda>j. Some (c * 2 ^ j)) [0..<length (bin_str k)])"
    by (simp add: double_loop_length)
  fix j assume "j < length (snd (double_loop count_add () [Some c] (length (bin_str k) - 1)))"
  then have j: "j \<le> length (bin_str k) - 1" by (simp add: double_loop_length)
  with m have "j < length (bin_str k)" by arith
  then show "snd (double_loop count_add () [Some c] (length (bin_str k) - 1)) ! j
             = map (\<lambda>j. Some (c * 2 ^ j)) [0..<length (bin_str k)] ! j"
    using double_loop_count_nth [of "[Some c]" c j "length (bin_str k) - 1"] j by simp
qed

theorem doubling_table_witness:
  "snd (double_loop count_add () [Some 3] (length (bin_str 6) - 1)) = [Some 3, Some 6, Some 12]"
  using doubling_table [of 3 6] by (simp add: eval_simps)

text \<open>
  C26. \<open>mult\<close> never reads the field \<open>div\<close>: the point it returns, and every other
  field of the curve object it leaves, are the same whatever \<open>div\<close> holds when it is
  called. The shared mutable field is write-only for the arithmetic.
\<close>

theorem mult_ec_ignores_div:
  "snd (mult_ec (E\<lparr>ec_div := d\<rparr>) p k) = snd (mult_ec E p k)
   \<and> (fst (mult_ec (E\<lparr>ec_div := d\<rparr>) p k))\<lparr>ec_div := 1\<rparr> = (fst (mult_ec E p k))\<lparr>ec_div := 1\<rparr>"
proof -
  let ?R = "\<lambda>s t :: curve. s\<lparr>ec_div := 1\<rparr> = t\<lparr>ec_div := 1\<rparr>"
  have "?R (fst (mult_with sum_ec (E\<lparr>ec_div := d\<rparr>) p k)) (fst (mult_with sum_ec E p k))
        \<and> snd (mult_with sum_ec (E\<lparr>ec_div := d\<rparr>) p k) = snd (mult_with sum_ec E p k)"
    by (rule mult_with_sim [where R = ?R, OF sum_ec_div_rel]) simp_all
  then show ?thesis by (simp add: mult_ec_def)
qed

end
