(* ===== verification/Lenstra.thy ===== *)
theory Lenstra
  imports Scalar
begin

text \<open>
  The function \<open>lenstra(N)\<close> of \<^verbatim>\<open>src/main.py\<close>: three draws of
  \<open>random.randint(1, N)\<close> give the base point \<open>(a, b)\<close> and the coefficient
  \<open>A\<close>, the curve's \<open>B\<close> is chosen so that the point lies on the curve, and the
  loop \<open>while E.div == 1\<close> replaces the point by \<open>E.mult(point, i)\<close> for
  \<open>i = 2, 3, \<dots>\<close> until a multiplication fails. The loop has no bound, so it is a
  \<^theory_text>\<open>partial_function\<close> in the option monad (\<open>None\<close>: the loop does not
  stop), with a fuel-indexed twin and a step relation whose reachable states carry the
  loop invariant.
\<close>

definition lenstra_init :: "int \<Rightarrow> int \<Rightarrow> int \<Rightarrow> int \<Rightarrow> curve \<times> point option \<times> nat" where
  "lenstra_init N a b A =
     (let point = Some (Point a b);
          B = (b * b - a * a * a - A * a) mod N;
          E = new_curve A B N
      in (E, point, 2))"

partial_function (option) lenstra_loop :: "curve \<Rightarrow> point option \<Rightarrow> nat \<Rightarrow> curve option" where
  "lenstra_loop E point i =
     (if ec_div E = 1 then
        (if point = None then Some E
         else (case mult_ec E point i of (E', point') \<Rightarrow> lenstra_loop E' point' (Suc i)))
      else Some E)"

definition lenstra :: "rng \<Rightarrow> nat \<Rightarrow> int \<Rightarrow> (int \<times> nat) option" where
  "lenstra r s N =
     (let a = r s 1 N; b = r (Suc s) 1 N; A = r (Suc (Suc s)) 1 N
      in case lenstra_init N a b A of
           (E, point, i) \<Rightarrow> map_option (\<lambda>E'. (ec_div E', s + 3)) (lenstra_loop E point i))"

declare lenstra_init_def [model_defs] lenstra_def [model_defs] lenstra_loop.simps [eval_simps]

text \<open>The loop run for at most \<open>n\<close> rounds: \<open>None\<close> when the fuel runs out.\<close>

fun lenstra_fuel :: "nat \<Rightarrow> curve \<Rightarrow> point option \<Rightarrow> nat \<Rightarrow> curve option" where
  "lenstra_fuel 0 E point i = None"
| "lenstra_fuel (Suc n) E point i =
     (if ec_div E = 1 then
        (if point = None then Some E
         else (case mult_ec E point i of (E', point') \<Rightarrow> lenstra_fuel n E' point' (Suc i)))
      else Some E)"

text \<open>
  The exit test of the loop (\<open>while E.div == 1\<close> with \<open>if point == None: break\<close>),
  and the run the pseudocode comment above the loop describes: the point multiplied in
  turn by \<open>i, i + 1, \<dots>, i + k - 1\<close>, with no exit test.
\<close>

definition loop_guard :: "curve \<times> point option \<Rightarrow> bool" where
  "loop_guard st \<longleftrightarrow> ec_div (fst st) = 1 \<and> snd st \<noteq> None"

fun mult_rounds :: "nat \<Rightarrow> curve \<Rightarrow> point option \<Rightarrow> nat \<Rightarrow> curve \<times> point option" where
  "mult_rounds 0 E p i = (E, p)"
| "mult_rounds (Suc k) E p i = (case mult_rounds k E p i of (E1, p1) \<Rightarrow> mult_ec E1 p1 (i + k))"

text \<open>One round of the loop, and the states the loop reaches from its start.\<close>

inductive lenstra_step :: "curve \<times> point option \<times> nat \<Rightarrow> curve \<times> point option \<times> nat \<Rightarrow> bool" where
  round: "ec_div E = 1 \<Longrightarrow> point \<noteq> None \<Longrightarrow> mult_ec E point i = (E', point') \<Longrightarrow>
          lenstra_step (E, point, i) (E', point', Suc i)"

inductive lenstra_reach :: "int \<Rightarrow> int \<Rightarrow> int \<Rightarrow> int \<Rightarrow> curve \<times> point option \<times> nat \<Rightarrow> bool"
  for N a b A where
  start: "lenstra_reach N a b A (lenstra_init N a b A)"
| step: "lenstra_reach N a b A st \<Longrightarrow> lenstra_step st st' \<Longrightarrow> lenstra_reach N a b A st'"

inductive_cases lenstra_step_elim: "lenstra_step (E, point, i) st'"

definition loop_inv :: "int \<Rightarrow> curve \<times> point option \<times> nat \<Rightarrow> bool" where
  "loop_inv N st \<longleftrightarrow>
     (case st of (E, point, i) \<Rightarrow>
        curve_inv E \<and> ec_N E = N \<and> 2 \<le> i \<and> (point = None \<longrightarrow> ec_div E \<noteq> 1))"

subsection \<open>The loop invariant\<close>

lemma loop_inv_start:
  "0 < N \<Longrightarrow> loop_inv N (lenstra_init N a b A)"
  by (simp add: loop_inv_def lenstra_init_def new_curve_def curve_inv_def Let_def)

lemma loop_inv_step:
  assumes "lenstra_step st st'" and "loop_inv N st"
  shows "loop_inv N st'"
  using assms
proof (induction rule: lenstra_step.induct)
  case (round E point i E' point')
  obtain P where P: "point = Some P" using round.hyps(2) by blast
  from round.prems have inv: "curve_inv E" "ec_N E = N" "2 \<le> i"
    by (simp_all add: loop_inv_def)
  have "curve_inv E'"
    using mult_ec_curve_inv [OF inv(1), of point i] round.hyps(3) by simp
  moreover have "ec_N E' = N"
    using mult_ec_frame [of E point i] round.hyps(3) inv(2) by simp
  moreover have "point' = None \<longrightarrow> ec_div E' \<noteq> 1"
    using mult_ec_None_failure [of i E P] round.hyps(3) P inv(3) by simp
  ultimately show ?case using inv(3) by (simp add: loop_inv_def)
qed

lemma lenstra_reach_inv:
  "lenstra_reach N a b A st \<Longrightarrow> 0 < N \<Longrightarrow> loop_inv N st"
  by (induction rule: lenstra_reach.induct) (auto intro: loop_inv_start loop_inv_step)

text \<open>The base point lies on the curve built for it, and a round keeps it there.\<close>

lemma lenstra_init_on_curve:
  "lenstra_init N a b A = (E, p, i) \<Longrightarrow> pred_option (on_curve E) p"
proof -
  assume "lenstra_init N a b A = (E, p, i)"
  then have E: "E = new_curve A ((b * b - a * a * a - A * a) mod N) N" and p: "p = Some (Point a b)"
    by (auto simp: lenstra_init_def Let_def)
  have "N dvd (b * b - a * a * a - A * a) mod N - (b * b - a * a * a - A * a)"
    by (rule mod_diff_dvd)
  then have "N dvd b * b - (a * a * a + A * a + (b * b - a * a * a - A * a) mod N)"
    by (simp add: dvd_diff_commute algebra_simps)
  with E p show ?thesis by (simp add: on_curve_def curve_poly_def new_curve_def dvd_eq_mod_eq_0)
qed

lemma lenstra_step_on_curve:
  assumes "lenstra_step (E, p, i) (E', p', i')" and "0 < ec_N E" and "pred_option (on_curve E) p"
  shows "pred_option (on_curve E') p'"
  using assms(1)
proof (cases rule: lenstra_step.cases)
  case round
  have "on_curve E' = on_curve E"
    using mult_ec_frame [of E p i] round by (intro on_curve_frame) simp_all
  moreover have "pred_option (on_curve E) (snd (mult_ec E p i))"
    using assms(2,3) by (rule mult_ec_on_curve)
  ultimately show ?thesis using round by simp
qed

text \<open>Where the loop stops, it stops in a reachable state whose exit test holds.\<close>

lemma lenstra_loop_reach:
  assumes ret: "lenstra_loop E p i = Some E'" and r: "lenstra_reach N a b A (E, p, i)"
  shows "\<exists>p' i'. lenstra_reach N a b A (E', p', i') \<and> (ec_div E' \<noteq> 1 \<or> p' = None)"
proof -
  have "lenstra_reach N a b A (E, p, i) \<longrightarrow>
          (\<exists>p' i'. lenstra_reach N a b A (E', p', i') \<and> (ec_div E' \<noteq> 1 \<or> p' = None))"
  proof (rule lenstra_loop.raw_induct [where P = "\<lambda>E p i E'. lenstra_reach N a b A (E, p, i) \<longrightarrow>
          (\<exists>p' i'. lenstra_reach N a b A (E', p', i') \<and> (ec_div E' \<noteq> 1 \<or> p' = None))", OF _ ret])
    fix f E p i E'
    assume IH: "\<And>E p i E'. f E p i = Some E' \<Longrightarrow> lenstra_reach N a b A (E, p, i) \<longrightarrow>
          (\<exists>p' i'. lenstra_reach N a b A (E', p', i') \<and> (ec_div E' \<noteq> 1 \<or> p' = None))"
      and eq: "(if ec_div E = 1 then
                  if p = None then Some E
                  else case mult_ec E p i of (E1, p1) \<Rightarrow> f E1 p1 (Suc i)
                else Some E) = Some E'"
    show "lenstra_reach N a b A (E, p, i) \<longrightarrow>
          (\<exists>p' i'. lenstra_reach N a b A (E', p', i') \<and> (ec_div E' \<noteq> 1 \<or> p' = None))"
    proof
      assume R: "lenstra_reach N a b A (E, p, i)"
      show "\<exists>p' i'. lenstra_reach N a b A (E', p', i') \<and> (ec_div E' \<noteq> 1 \<or> p' = None)"
      proof (cases "ec_div E = 1 \<and> p \<noteq> None")
        case False
        with eq R show ?thesis by (auto split: if_splits)
      next
        case True
        obtain E1 p1 where m: "mult_ec E p i = (E1, p1)" by fastforce
        with True eq have "f E1 p1 (Suc i) = Some E'" by (auto split: if_splits)
        moreover have "lenstra_reach N a b A (E1, p1, Suc i)"
          using R True m by (blast intro: lenstra_reach.step lenstra_step.round)
        ultimately show ?thesis using IH by blast
      qed
    qed
  qed
  with r show ?thesis by blast
qed

lemma lenstra_result:
  assumes ret: "lenstra r s N = Some (d, s')" and N: "0 < N"
  shows "1 < d \<and> d dvd N \<and> s' = s + 3"
proof -
  define a b A where "a = r s 1 N" and "b = r (Suc s) 1 N" and "A = r (Suc (Suc s)) 1 N"
  obtain E p i where init: "lenstra_init N a b A = (E, p, i)" by (cases "lenstra_init N a b A") auto
  from ret init obtain E' where l: "lenstra_loop E p i = Some E'" and d: "d = ec_div E'"
      and s': "s' = s + 3"
    by (auto simp: lenstra_def a_def b_def A_def)
  have "lenstra_reach N a b A (E, p, i)" using lenstra_reach.start [of N a b A] init by simp
  with l obtain p' i' where R: "lenstra_reach N a b A (E', p', i')"
      and ex: "ec_div E' \<noteq> 1 \<or> p' = None"
    using lenstra_loop_reach by blast
  from lenstra_reach_inv [OF R N] ex have "curve_inv E' \<and> ec_N E' = N \<and> ec_div E' \<noteq> 1"
    by (auto simp: loop_inv_def)
  with d s' show ?thesis by (auto simp: curve_inv_def)
qed

subsection \<open>Termination and fuel\<close>

lemma lenstra_fuel_loop:
  "lenstra_fuel n E p i = Some E' \<Longrightarrow> lenstra_loop E p i = Some E'"
proof (induction n arbitrary: E p i)
  case 0
  then show ?case by simp
next
  case (Suc n)
  then show ?case
    by (subst lenstra_loop.simps) (auto split: if_splits prod.splits)
qed

lemma lenstra_loop_fuel:
  assumes ret: "lenstra_loop E p i = Some E'"
  shows "\<exists>n. lenstra_fuel n E p i = Some E'"
proof (rule lenstra_loop.raw_induct [where P = "\<lambda>E p i E'. \<exists>n. lenstra_fuel n E p i = Some E'", OF _ ret])
  fix f E p i E'
  assume IH: "\<And>E p i E'. f E p i = Some E' \<Longrightarrow> \<exists>n. lenstra_fuel n E p i = Some E'"
    and eq: "(if ec_div E = 1 then
                if p = None then Some E
                else case mult_ec E p i of (E1, p1) \<Rightarrow> f E1 p1 (Suc i)
              else Some E) = Some E'"
  show "\<exists>n. lenstra_fuel n E p i = Some E'"
  proof (cases "ec_div E = 1 \<and> p \<noteq> None")
    case False
    with eq have "lenstra_fuel (Suc 0) E p i = Some E'" by (auto split: if_splits)
    then show ?thesis by blast
  next
    case True
    obtain E1 p1 where m: "mult_ec E p i = (E1, p1)" by fastforce
    with True eq have "f E1 p1 (Suc i) = Some E'" by (auto split: if_splits)
    then obtain n where "lenstra_fuel n E1 p1 (Suc i) = Some E'" using IH by blast
    with True m have "lenstra_fuel (Suc n) E p i = Some E'" by auto
    then show ?thesis by blast
  qed
qed

text \<open>The loop stops at the first round whose state fails the exit test.\<close>

lemma mult_rounds_shift:
  "mult_rounds (Suc k) E p i = (case mult_ec E p i of (E1, p1) \<Rightarrow> mult_rounds k E1 p1 (Suc i))"
proof (induction k)
  case (Suc k)
  obtain E1 p1 where m: "mult_ec E p i = (E1, p1)" by fastforce
  with Suc.IH show ?case by (simp split: prod.split)
qed (simp split: prod.split)

lemma mult_rounds_shift_eq:
  "mult_ec E p i = (E1, p1) \<Longrightarrow> mult_rounds (Suc j) E p i = mult_rounds j E1 p1 (Suc i)"
  by (simp only: mult_rounds_shift prod.case)

lemma lenstra_loop_from_rounds:
  assumes "\<forall>j<k. loop_guard (mult_rounds j E p i)" and "\<not> loop_guard (mult_rounds k E p i)"
  shows "lenstra_loop E p i = Some (fst (mult_rounds k E p i))"
  using assms
proof (induction k arbitrary: E p i)
  case 0
  then show ?case by (subst lenstra_loop.simps) (auto simp: loop_guard_def)
next
  case (Suc k)
  obtain E1 p1 where m: "mult_ec E p i = (E1, p1)" by fastforce
  note sh = mult_rounds_shift_eq [OF m]
  have g0: "ec_div E = 1 \<and> p \<noteq> None" using Suc.prems(1) by (auto simp: loop_guard_def)
  have "\<forall>j<k. loop_guard (mult_rounds j E1 p1 (Suc i))"
    using Suc.prems(1) by (auto simp flip: sh)
  moreover have "\<not> loop_guard (mult_rounds k E1 p1 (Suc i))"
    unfolding sh [symmetric] by (rule Suc.prems(2))
  ultimately have "lenstra_loop E1 p1 (Suc i) = Some (fst (mult_rounds k E1 p1 (Suc i)))"
    by (rule Suc.IH)
  with g0 m sh show ?case by (subst lenstra_loop.simps) auto
qed

lemma lenstra_loop_to_rounds:
  assumes "lenstra_loop E p i = Some E'"
  shows "\<exists>k. (\<forall>j<k. loop_guard (mult_rounds j E p i)) \<and> \<not> loop_guard (mult_rounds k E p i)
             \<and> fst (mult_rounds k E p i) = E'"
proof (rule lenstra_loop.raw_induct [OF _ assms])
  fix f E p i E'
  assume IH: "\<And>E p i E'. f E p i = Some E' \<Longrightarrow> \<exists>k. (\<forall>j<k. loop_guard (mult_rounds j E p i))
                \<and> \<not> loop_guard (mult_rounds k E p i) \<and> fst (mult_rounds k E p i) = E'"
    and eq: "(if ec_div E = 1 then
                if p = None then Some E
                else case mult_ec E p i of (E1, p1) \<Rightarrow> f E1 p1 (Suc i)
              else Some E) = Some E'"
  show "\<exists>k. (\<forall>j<k. loop_guard (mult_rounds j E p i)) \<and> \<not> loop_guard (mult_rounds k E p i)
             \<and> fst (mult_rounds k E p i) = E'"
  proof (cases "loop_guard (E, p)")
    case False
    with eq have "\<not> loop_guard (mult_rounds 0 E p i) \<and> fst (mult_rounds 0 E p i) = E'"
      by (auto simp: loop_guard_def split: if_splits)
    then show ?thesis by blast
  next
    case True
    obtain E1 p1 where m: "mult_ec E p i = (E1, p1)" by fastforce
    note sh = mult_rounds_shift_eq [OF m]
    with True eq m have "f E1 p1 (Suc i) = Some E'" by (auto simp: loop_guard_def)
    then obtain k where k: "\<forall>j<k. loop_guard (mult_rounds j E1 p1 (Suc i))"
        "\<not> loop_guard (mult_rounds k E1 p1 (Suc i))" "fst (mult_rounds k E1 p1 (Suc i)) = E'"
      using IH by blast
    have "\<forall>j<Suc k. loop_guard (mult_rounds j E p i)"
    proof (intro allI impI)
      fix j assume j: "j < Suc k"
      show "loop_guard (mult_rounds j E p i)"
      proof (cases j)
        case 0
        with True show ?thesis by simp
      next
        case (Suc j')
        with j k(1) show ?thesis unfolding Suc sh by simp
      qed
    qed
    moreover have "\<not> loop_guard (mult_rounds (Suc k) E p i) \<and> fst (mult_rounds (Suc k) E p i) = E'"
      unfolding sh using k(2,3) by blast
    ultimately show ?thesis by blast
  qed
qed

subsection \<open>Properties of the search\<close>

text \<open>
  C8. The point at infinity never ends a search: in every state the loop of
  \<open>lenstra\<close> reaches, the running point is \<open>None\<close> only after a failed addition
  has stored in \<open>E.div\<close> a divisor of \<open>N\<close> greater than 1. The test
  \<open>if point == None: break\<close> therefore never fires while \<open>E.div == 1\<close>, and the
  "collapsed curve" outcome of the specification does not occur.
\<close>

theorem lenstra_reach_None_has_divisor:
  assumes "lenstra_reach N a b A (E, point, i)" and "0 < N" and "point = None"
  shows "1 < ec_div E \<and> ec_div E dvd N"
proof -
  have "loop_inv N (E, point, i)" using assms(1,2) by (rule lenstra_reach_inv)
  with assms(3) show ?thesis by (auto simp: loop_inv_def curve_inv_def)
qed

theorem lenstra_reach_None_has_divisor_witness:
  "lenstra_reach 15 1 1 3 (\<lparr>ec_a = 3, ec_b = 12, ec_N = 15, ec_div = 3\<rparr>, None, 4)
   \<and> 1 < ec_div \<lparr>ec_a = 3, ec_b = 12, ec_N = 15, ec_div = 3\<rparr>
   \<and> ec_div \<lparr>ec_a = 3, ec_b = 12, ec_N = 15, ec_div = 3\<rparr> dvd 15"
proof -
  have init: "lenstra_init 15 1 1 3 = (\<lparr>ec_a = 3, ec_b = 12, ec_N = 15, ec_div = 1\<rparr>, Some (Point 1 1), 2)"
    by (simp add: lenstra_init_def new_curve_def)
  have m2: "mult_ec \<lparr>ec_a = 3, ec_b = 12, ec_N = 15, ec_div = 1\<rparr> (Some (Point 1 1)) 2
      = (\<lparr>ec_a = 3, ec_b = 12, ec_N = 15, ec_div = 1\<rparr>, Some (Point 1 1))"
    by (simp add: model_defs eval_simps Let_def)
  have m3: "mult_ec \<lparr>ec_a = 3, ec_b = 12, ec_N = 15, ec_div = 1\<rparr> (Some (Point 1 1)) 3
      = (\<lparr>ec_a = 3, ec_b = 12, ec_N = 15, ec_div = 3\<rparr>, None)"
    by (simp add: model_defs eval_simps Let_def)
  have r0: "lenstra_reach 15 1 1 3 (\<lparr>ec_a = 3, ec_b = 12, ec_N = 15, ec_div = 1\<rparr>, Some (Point 1 1), 2)"
    using lenstra_reach.start [of 15 1 1 3] init by simp
  have r1: "lenstra_reach 15 1 1 3 (\<lparr>ec_a = 3, ec_b = 12, ec_N = 15, ec_div = 1\<rparr>, Some (Point 1 1), 3)"
    using lenstra_reach.step [OF r0 lenstra_step.round [OF _ _ m2]] by simp
  have r2: "lenstra_reach 15 1 1 3 (\<lparr>ec_a = 3, ec_b = 12, ec_N = 15, ec_div = 3\<rparr>, None, 4)"
    using lenstra_reach.step [OF r1 lenstra_step.round [OF _ _ m3]] by simp
  show ?thesis
    using r2 lenstra_reach_None_has_divisor [OF r2] by simp
qed

text \<open>
  C9. The search loop stops exactly at the first failed round: \<open>lenstra_loop\<close>
  returns \<open>E'\<close> if and only if, multiplying the point in turn by \<open>i, i + 1, \<dots>\<close>,
  there is a first \<open>k\<close> at which \<open>E.div\<close> is no longer 1 or the point is \<open>None\<close>,
  and \<open>E'\<close> is the curve object after those \<open>k\<close> multiplications. A search that never
  returns is one in which every multiplication leaves \<open>E.div = 1\<close> and a point.
\<close>

theorem lenstra_loop_first_exit:
  "lenstra_loop E p i = Some E' \<longleftrightarrow>
     (\<exists>k. (\<forall>j<k. loop_guard (mult_rounds j E p i)) \<and> \<not> loop_guard (mult_rounds k E p i)
          \<and> fst (mult_rounds k E p i) = E')"
  using lenstra_loop_to_rounds lenstra_loop_from_rounds by blast

theorem lenstra_loop_first_exit_witness:
  "lenstra_loop \<lparr>ec_a = 1, ec_b = 14, ec_N = 15, ec_div = 1\<rparr> (Some (Point 1 1)) 2
     = Some \<lparr>ec_a = 1, ec_b = 14, ec_N = 15, ec_div = 3\<rparr>"
proof -
  let ?E = "\<lparr>ec_a = 1, ec_b = 14, ec_N = 15, ec_div = 1\<rparr>"
  have m2: "mult_ec ?E (Some (Point 1 1)) 2 = (?E, Some (Point 1 1))"
    by (simp add: model_defs eval_simps Let_def)
  have m3: "mult_ec ?E (Some (Point 1 1)) 3 = (?E, Some (Point 13 2))"
    by (simp add: model_defs eval_simps Let_def)
  have m4: "mult_ec ?E (Some (Point 13 2)) 4 = (?E\<lparr>ec_div := 3\<rparr>, Some (Point 13 2))"
    by (simp add: model_defs eval_simps Let_def)
  have "(\<forall>j<3. loop_guard (mult_rounds j ?E (Some (Point 1 1)) 2))
        \<and> \<not> loop_guard (mult_rounds 3 ?E (Some (Point 1 1)) 2)
        \<and> fst (mult_rounds 3 ?E (Some (Point 1 1)) 2) = \<lparr>ec_a = 1, ec_b = 14, ec_N = 15, ec_div = 3\<rparr>"
    using m2 m3 m4 by (simp add: loop_guard_def numeral_eq_Suc less_Suc_eq)
  then show ?thesis using lenstra_loop_first_exit by blast
qed

text \<open>
  C10. The value \<open>lenstra(N)\<close> returns, for \<open>N > 1\<close>, is a divisor of \<open>N\<close>
  between 2 and \<open>N\<close>, and each call consumes exactly three random draws.
\<close>

theorem lenstra_returns_divisor:
  assumes "lenstra r s N = Some (d, s')" and "1 < N"
  shows "1 < d \<and> d \<le> N \<and> d dvd N \<and> s' = s + 3"
proof -
  have "1 < d \<and> d dvd N \<and> s' = s + 3"
    using assms(1) by (rule lenstra_result) (use assms(2) in simp)
  with assms(2) show ?thesis by (auto dest: zdvd_imp_le)
qed

theorem lenstra_returns_divisor_witness:
  "lenstra (\<lambda>j lo hi. lo) 0 15 = Some (3, 3) \<and> 1 < (3::int) \<and> 3 \<le> (15::int) \<and> (3::int) dvd 15"
proof -
  have "lenstra_fuel 10 \<lparr>ec_a = 1, ec_b = (1 * 1 - 1 * 1 * 1 - 1 * 1) mod 15, ec_N = 15, ec_div = 1\<rparr>
          (Some (Point 1 1)) 2 = Some \<lparr>ec_a = 1, ec_b = 14, ec_N = 15, ec_div = 3\<rparr>"
    by code_simp
  then have "lenstra_loop \<lparr>ec_a = 1, ec_b = (1 * 1 - 1 * 1 * 1 - 1 * 1) mod 15, ec_N = 15, ec_div = 1\<rparr>
          (Some (Point 1 1)) 2 = Some \<lparr>ec_a = 1, ec_b = 14, ec_N = 15, ec_div = 3\<rparr>"
    by (rule lenstra_fuel_loop)
  then have run: "lenstra (\<lambda>j lo hi. lo) 0 15 = Some (3, 3)"
    by (simp add: lenstra_def lenstra_init_def new_curve_def Let_def)
  show ?thesis using lenstra_returns_divisor [OF run] run by simp
qed

text \<open>
  On an even modulus the search stops after its first round, whatever the random
  draws: doubling the base point \<open>(a, b)\<close> tests \<open>gcd(2b, N)\<close>, which is at least
  2, so \<open>lenstra\<close> returns \<open>gcd(2b, N)\<close>.
\<close>

lemma even_gcd_not_one:
  assumes "even N" and "N \<noteq> (0::int)"
  shows "gcd (2 * b) N \<noteq> 1"
proof
  assume g: "gcd (2 * b) N = 1"
  have "2 dvd gcd (2 * b) N" using assms(1) by simp
  with g show False by simp
qed

lemma mult_ec_two_even:
  assumes "even (ec_N E)" and "ec_N E \<noteq> 0"
  shows "mult_ec E (Some P) 2 = (E\<lparr>ec_div := gcd (2 * py P) (ec_N E)\<rparr>, Some P)"
proof -
  have g: "gcd (2 * py P) (ec_N E) \<noteq> 1" using assms by (rule even_gcd_not_one)
  have d: "sum_ec E (Some P) (Some P) = (E\<lparr>ec_div := gcd (2 * py P) (ec_N E)\<rparr>, None)"
    using g by (simp add: sum_ec_def)
  have "bin_str 2 = [CHR ''1'', CHR ''0'']" by (simp add: eval_simps)
  with d show ?thesis by (simp add: mult_ec_def mult_with_def)
qed

lemma lenstra_even_one_round:
  assumes "even N" and "2 \<le> N"
  shows "lenstra r s N = Some (gcd (2 * r (Suc s) 1 N) N, s + 3)"
proof -
  define a b A where "a = r s 1 N" and "b = r (Suc s) 1 N" and "A = r (Suc (Suc s)) 1 N"
  define E where "E = new_curve A ((b * b - a * a * a - A * a) mod N) N"
  have N: "even (ec_N E)" "ec_N E \<noteq> 0" "ec_div E = 1"
    using assms by (simp_all add: E_def new_curve_def)
  have g: "gcd (2 * b) N \<noteq> 1" using assms by (intro even_gcd_not_one) simp_all
  have m: "mult_ec E (Some (Point a b)) 2 = (E\<lparr>ec_div := gcd (2 * b) N\<rparr>, Some (Point a b))"
    using mult_ec_two_even [OF N(1,2)] by (simp add: E_def new_curve_def)
  have "lenstra_loop E (Some (Point a b)) 2 = Some (E\<lparr>ec_div := gcd (2 * b) N\<rparr>)"
    using N(3) m g by (simp add: lenstra_loop.simps [of E] lenstra_loop.simps [of "E\<lparr>ec_div := gcd (2 * b) N\<rparr>"])
  then show ?thesis
    by (simp add: lenstra_def lenstra_init_def Let_def a_def b_def A_def E_def)
qed

subsection \<open>The modulus 1\<close>

text \<open>
  Over \<open>Z/1Z\<close> every gcd is 1: no addition fails, the curve object never changes
  and the point is never \<open>None\<close>, so the loop has no exit.
\<close>

lemma sum_failure_one: "sum_failure 1 P Q = None"
  by (simp add: sum_failure_def Let_def)

lemma sum_ec_unit_state: "ec_N E = 1 \<Longrightarrow> fst (sum_ec E p q) = E"
  using sum_ec_state [of E p q "fst (sum_ec E p q)" "snd (sum_ec E p q)"] sum_failure_one by auto

lemma mult_ec_unit_state:
  assumes "ec_N E = 1"
  shows "fst (mult_ec E p k) = E"
proof -
  have "(\<lambda>s. s = E) (fst (mult_with sum_ec E p k))"
    by (rule mult_with_inv) (use assms sum_ec_unit_state in auto)
  then show ?thesis by (simp add: mult_ec_def)
qed

lemma unit_loop_inv:
  assumes "lenstra_reach 1 a b A (E, p, i)"
  shows "ec_div E = 1 \<and> ec_N E = 1 \<and> p \<noteq> None \<and> 2 \<le> i"
  using assms
proof (induction "(E, p, i)" arbitrary: E p i rule: lenstra_reach.induct)
  case start
  then show ?case by (auto simp: lenstra_init_def new_curve_def Let_def)
next
  case (step st)
  obtain E0 p0 i0 where st: "st = (E0, p0, i0)" by (cases st) auto
  from step.hyps(3) st have "lenstra_step (E0, p0, i0) (E, p, i)" by simp
  then obtain P where P: "p0 = Some P" and m: "mult_ec E0 p0 i0 = (E, p)" and i: "i = Suc i0"
    by (cases rule: lenstra_step.cases) auto
  from step.hyps(2) st have inv: "ec_div E0 = 1" "ec_N E0 = 1" "2 \<le> i0" by auto
  have E: "E = E0" using mult_ec_unit_state [OF inv(2), of p0 i0] m by simp
  have "p \<noteq> None"
  proof
    assume "p = None"
    then have "ec_div (fst (mult_ec E0 (Some P) i0)) \<noteq> 1"
      using mult_ec_None_failure [of i0 E0 P] m P inv(3) by simp
    with m P E inv(1) show False by simp
  qed
  with E inv i show ?case by simp
qed

lemma lenstra_one_diverges: "lenstra r s 1 = None"
proof (rule ccontr)
  assume "lenstra r s 1 \<noteq> None"
  then obtain E' where l: "lenstra_loop (fst (lenstra_init 1 (r s 1 1) (r (Suc s) 1 1) (r (Suc (Suc s)) 1 1)))
      (fst (snd (lenstra_init 1 (r s 1 1) (r (Suc s) 1 1) (r (Suc (Suc s)) 1 1))))
      (snd (snd (lenstra_init 1 (r s 1 1) (r (Suc s) 1 1) (r (Suc (Suc s)) 1 1)))) = Some E'"
    by (auto simp: lenstra_def Let_def split: prod.splits)
  have "lenstra_reach 1 (r s 1 1) (r (Suc s) 1 1) (r (Suc (Suc s)) 1 1)
     (lenstra_init 1 (r s 1 1) (r (Suc s) 1 1) (r (Suc (Suc s)) 1 1))"
    by (rule lenstra_reach.start)
  then obtain p' i' where "lenstra_reach 1 (r s 1 1) (r (Suc s) 1 1) (r (Suc (Suc s)) 1 1) (E', p', i')"
      and "ec_div E' \<noteq> 1 \<or> p' = None"
    using lenstra_loop_reach [OF l] by (metis prod.collapse)
  with unit_loop_inv show False by blast
qed

subsection \<open>The point stays on the curve\<close>

text \<open>
  C21. The coefficient \<open>B\<close> is chosen so that the random point \<open>(a, b)\<close> lies on
  \<open>y^2 = x^3 + Ax + B\<close> modulo \<open>N\<close>, and in every state the loop reaches, the current
  point is either \<open>None\<close> or still a point of that curve.
\<close>

theorem lenstra_reach_on_curve:
  "lenstra_reach N a b A (E, point, i) \<Longrightarrow> 0 < N \<Longrightarrow> pred_option (on_curve E) point"
proof (induction "(E, point, i)" arbitrary: E point i rule: lenstra_reach.induct)
  case start
  then show ?case by (metis lenstra_init_on_curve)
next
  case (step st)
  obtain E0 p0 i0 where st: "st = (E0, p0, i0)" by (cases st) auto
  have "loop_inv N st" using step.hyps(1) step.prems by (rule lenstra_reach_inv)
  then have "0 < ec_N E0" using st step.prems by (simp add: loop_inv_def)
  with step st show ?case by (blast intro: lenstra_step_on_curve)
qed

theorem lenstra_reach_on_curve_witness:
  "lenstra_reach 91 3 5 1 (\<lparr>ec_a = 1, ec_b = 86, ec_N = 91, ec_div = 1\<rparr>, Some (Point 14 59), 4)
   \<and> on_curve \<lparr>ec_a = 1, ec_b = 86, ec_N = 91, ec_div = 1\<rparr> (Point 14 59)"
proof -
  have init: "lenstra_init 91 3 5 1 = (\<lparr>ec_a = 1, ec_b = 86, ec_N = 91, ec_div = 1\<rparr>, Some (Point 3 5), 2)"
    by (simp add: lenstra_init_def new_curve_def)
  have m2: "mult_ec \<lparr>ec_a = 1, ec_b = 86, ec_N = 91, ec_div = 1\<rparr> (Some (Point 3 5)) 2
      = (\<lparr>ec_a = 1, ec_b = 86, ec_N = 91, ec_div = 1\<rparr>, Some (Point 3 5))"
    by (simp add: model_defs eval_simps Let_def)
  have m3: "mult_ec \<lparr>ec_a = 1, ec_b = 86, ec_N = 91, ec_div = 1\<rparr> (Some (Point 3 5)) 3
      = (\<lparr>ec_a = 1, ec_b = 86, ec_N = 91, ec_div = 1\<rparr>, Some (Point 14 59))"
    by (simp add: model_defs eval_simps Let_def)
  have r0: "lenstra_reach 91 3 5 1 (\<lparr>ec_a = 1, ec_b = 86, ec_N = 91, ec_div = 1\<rparr>, Some (Point 3 5), 2)"
    using lenstra_reach.start [of 91 3 5 1] init by simp
  have r1: "lenstra_reach 91 3 5 1 (\<lparr>ec_a = 1, ec_b = 86, ec_N = 91, ec_div = 1\<rparr>, Some (Point 3 5), 3)"
    using lenstra_reach.step [OF r0 lenstra_step.round [OF _ _ m2]] by simp
  have r2: "lenstra_reach 91 3 5 1 (\<lparr>ec_a = 1, ec_b = 86, ec_N = 91, ec_div = 1\<rparr>, Some (Point 14 59), 4)"
    using lenstra_reach.step [OF r1 lenstra_step.round [OF _ _ m3]] by simp
  show ?thesis using r2 lenstra_reach_on_curve [OF r2] by simp
qed

text \<open>
  C27. On an even \<open>N\<close> the search always stops, after one round and for every
  random source: the first doubling of the base point meets \<open>gcd(2b, N) \<ge> 2\<close>, so
  \<open>lenstra(N)\<close> returns an even divisor of \<open>N\<close> (which is \<open>N\<close> itself when \<open>b\<close>
  shares all of \<open>N\<close>'s odd part).
\<close>

theorem lenstra_even_terminates:
  assumes "even N" and "2 \<le> N"
  shows "\<exists>d. lenstra r s N = Some (d, s + 3) \<and> 2 \<le> d \<and> even d \<and> d dvd N"
proof -
  let ?d = "gcd (2 * r (Suc s) 1 N) N"
  have "even ?d" using assms(1) by simp
  moreover have "?d \<noteq> 0" using assms(2) by simp
  moreover have "0 \<le> ?d" by simp
  ultimately have "2 \<le> ?d" by presburger
  with assms lenstra_even_one_round [OF assms, of r s] show ?thesis by auto
qed

theorem lenstra_even_terminates_witness:
  "even (4::int) \<and> 2 \<le> (4::int) \<and> lenstra (\<lambda>j lo hi. lo) 0 4 = Some (2, 3)"
proof -
  obtain d where d: "lenstra (\<lambda>j lo hi. lo) 0 4 = Some (d, 0 + 3)" and "2 \<le> d" "d dvd 4"
    using lenstra_even_terminates [of 4 "\<lambda>j lo hi. lo" 0] by auto
  moreover have "lenstra (\<lambda>j lo hi. lo) 0 4 = Some (gcd (2 * 1) 4, 0 + 3)"
    by (rule lenstra_even_one_round) simp_all
  ultimately show ?thesis by (simp add: eval_simps)
qed

end
