(* ===== verification/Factor.thy ===== *)
theory Factor
  imports Lenstra
begin

text \<open>
  The recursive driver of \<^verbatim>\<open>src/main.py\<close>: \<open>factorization(N)\<close> asks
  \<open>lenstra\<close> for a divisor, asks again while the divisor is \<open>N\<close> itself, and
  recurses through \<open>get_next\<close> on the divisor and on the cofactor \<open>N // div\<close>.
  Both loops are unbounded, so \<open>retry_lenstra\<close> and \<open>get_next\<close> are
  \<^theory_text>\<open>partial_function\<close>s in the option monad. \<open>get_next\<close> is the recursion
  the code performs: for a composite argument it runs the body of
  \<open>factorization\<close>, which it calls; \<open>factorization\<close> itself adds the branch the
  code takes on a prime argument, where it returns the integer \<open>N\<close> instead of a
  list. The primality test \<open>sympy.isprime\<close> is an external oracle, modelled by
  trial division from the specification's contract (correct on every integer, false
  below 2).
\<close>

definition isprime :: "int \<Rightarrow> bool" where
  "isprime n \<longleftrightarrow> 1 < n \<and> list_all (\<lambda>d. \<not> d dvd n) [2..n - 1]"

text \<open>\<open>while div == N: div = lenstra(N)\<close>\<close>

partial_function (option) retry_lenstra :: "rng \<Rightarrow> nat \<Rightarrow> int \<Rightarrow> int \<Rightarrow> (int \<times> nat) option" where
  "retry_lenstra r s N dv =
     (if dv = N then lenstra r s N \<bind> (\<lambda>(dv', s'). retry_lenstra r s' N dv')
      else Some (dv, s))"

partial_function (option) get_next :: "rng \<Rightarrow> nat \<Rightarrow> int \<Rightarrow> (int list \<times> nat) option" where
  "get_next r s N =
     (if isprime N then Some ([N], s)
      else do {
        (dv0, s1) \<leftarrow> lenstra r s N;
        (dv, s2) \<leftarrow> retry_lenstra r s1 N dv0;
        (factorizations, s3) \<leftarrow> get_next r s2 dv;
        let numb = N div dv;
        if \<not> numb = 1 then do {
          (fs2, s4) \<leftarrow> get_next r s3 numb;
          Some (factorizations @ fs2, s4)
        } else Some (factorizations, s3)
      })"

text \<open>What \<open>factorization\<close> returns: a bare integer on a prime argument, a list otherwise.\<close>

datatype fact_result = Prime_Int int | Factor_List "int list"

definition factorization :: "rng \<Rightarrow> nat \<Rightarrow> int \<Rightarrow> (fact_result \<times> nat) option" where
  "factorization r s N =
     (if isprime N then Some (Prime_Int N, s)
      else map_option (\<lambda>(fs, s'). (Factor_List fs, s')) (get_next r s N))"

declare isprime_def [model_defs] factorization_def [model_defs]
  retry_lenstra.simps [eval_simps] get_next.simps [eval_simps]

subsection \<open>The primality oracle\<close>

lemma isprime_iff:
  "isprime n \<longleftrightarrow> 1 < n \<and> (\<forall>d. 1 < d \<longrightarrow> d < n \<longrightarrow> \<not> d dvd n)"
  by (auto simp: isprime_def list_all_iff)

lemma not_isprime_divisor:
  assumes "\<not> isprime n" and "1 < n"
  shows "\<exists>d. 1 < d \<and> d < n \<and> d dvd n"
  using assms by (auto simp: isprime_iff)

subsection \<open>Retrying the search\<close>

lemma retry_lenstra_result:
  assumes ret: "retry_lenstra r s N dv = Some (d, s')" and N: "1 < N"
    and dv: "1 < dv \<and> dv dvd N"
  shows "1 < d \<and> d dvd N \<and> d \<noteq> N"
proof -
  let ?P = "\<lambda>r s N' dv y. N' = N \<longrightarrow> 1 < dv \<and> dv dvd N \<longrightarrow> 1 < fst y \<and> fst y dvd N \<and> fst y \<noteq> N"
  have "?P r s N dv (d, s')"
  proof (rule retry_lenstra.raw_induct [where P = ?P, OF _ ret])
    fix f r s N' dv y
    assume IH: "\<And>r s N' dv y. f r s N' dv = Some y \<Longrightarrow> ?P r s N' dv y"
      and eq: "(if dv = N' then lenstra r s N' \<bind> (\<lambda>(dv', s'). f r s' N' dv') else Some (dv, s))
                 = Some y"
    show "?P r s N' dv y"
    proof (intro impI)
      assume N': "N' = N" and dv: "1 < dv \<and> dv dvd N"
      show "1 < fst y \<and> fst y dvd N \<and> fst y \<noteq> N"
      proof (cases "dv = N")
        case False
        with eq N' dv show ?thesis by auto
      next
        case True
        with eq N' obtain dv' s1 where l: "lenstra r s N = Some (dv', s1)"
          and f: "f r s1 N dv' = Some y"
          by (auto simp: bind_eq_Some_prod)
        have "1 < dv' \<and> dv' dvd N" using lenstra_result [OF l] N by simp
        with IH [OF f] show ?thesis by simp
      qed
    qed
  qed
  with dv show ?thesis by simp
qed

subsection \<open>The recursion\<close>

lemma proper_divisor_cofactor:
  assumes "1 < d" and "d dvd N" and "d \<noteq> N" and "1 < (N::int)"
  shows "d < N \<and> 1 < N div d \<and> N div d < N \<and> d * (N div d) = N"
proof -
  have "d \<le> N" using assms by (simp add: zdvd_imp_le)
  with assms(3) have dN: "d < N" by simp
  from assms(2) obtain m where m: "N = d * m" by (blast elim: dvdE)
  with assms(4) have "0 < d * m" by simp
  with assms(1) have "0 < m" using zero_less_mult_pos [of d m] by simp
  moreover have "m \<noteq> 1" using m dN by auto
  ultimately have "1 < m" by simp
  moreover have "m < N" using m assms(1) \<open>0 < m\<close> by simp
  ultimately show ?thesis using m dN assms(1) by simp
qed

lemma get_next_correct:
  assumes ret: "get_next r s N = Some (fs, s')" and N: "1 < N"
  shows "prod_list fs = N \<and> list_all isprime fs"
proof -
  let ?P = "\<lambda>r s N y. 1 < N \<longrightarrow> prod_list (fst y) = N \<and> list_all isprime (fst y)"
  have "?P r s N (fs, s')"
  proof (rule get_next.raw_induct [where P = ?P, OF _ ret])
    fix f r s N y
    assume IH: "\<And>r s N y. f r s N = Some y \<Longrightarrow> ?P r s N y"
      and eq: "(if isprime N then Some ([N], s)
      else do {
        (dv0, s1) \<leftarrow> lenstra r s N;
        (dv, s2) \<leftarrow> retry_lenstra r s1 N dv0;
        (factorizations, s3) \<leftarrow> f r s2 dv;
        let numb = N div dv;
        if \<not> numb = 1 then do {
          (fs2, s4) \<leftarrow> f r s3 numb;
          Some (factorizations @ fs2, s4)
        } else Some (factorizations, s3)
      }) = Some y"
    show "?P r s N y"
    proof
      assume N: "1 < N"
      show "prod_list (fst y) = N \<and> list_all isprime (fst y)"
      proof (cases "isprime N")
        case True
        with eq show ?thesis by auto
      next
        case False
        with eq obtain dv0 s1 dv s2 fs1 s3 where
          l: "lenstra r s N = Some (dv0, s1)" and rt: "retry_lenstra r s1 N dv0 = Some (dv, s2)"
          and f1: "f r s2 dv = Some (fs1, s3)"
          and rest: "(if N div dv \<noteq> 1
                      then f r s3 (N div dv) \<bind> (\<lambda>(fs2, s4). Some (fs1 @ fs2, s4))
                      else Some (fs1, s3)) = Some y"
          by (auto simp: bind_eq_Some_prod Let_def)
        have "1 < dv0 \<and> dv0 dvd N" using lenstra_result [OF l] N by simp
        with rt N have dv: "1 < dv \<and> dv dvd N \<and> dv \<noteq> N" by (intro retry_lenstra_result)
        then have c: "dv < N \<and> 1 < N div dv \<and> dv * (N div dv) = N"
          using N proper_divisor_cofactor by blast
        have p1: "prod_list fs1 = dv \<and> list_all isprime fs1"
          using IH [OF f1] dv by simp
        from c rest obtain fs2 s4 where f2: "f r s3 (N div dv) = Some (fs2, s4)"
            and y: "y = (fs1 @ fs2, s4)"
          by (auto simp: bind_eq_Some_prod)
        have "prod_list fs2 = N div dv \<and> list_all isprime fs2"
          using IH [OF f2] c by simp
        with p1 c y show ?thesis by simp
      qed
    qed
  qed
  with N show ?thesis by simp
qed

lemma odd_gcd_four:
  "odd (b::int) \<Longrightarrow> gcd (2 * b) 4 = 2"
proof -
  assume b: "odd b"
  have "gcd (2 * b) (2 * 2) = 2 * gcd b 2"
    using gcd_mult_distrib_int [of 2 b 2] by simp
  moreover have "gcd b 2 = gcd (b mod 2) 2" by simp
  then have "gcd b 2 = 1" using b by (simp add: odd_iff_mod_2_eq_one)
  ultimately show ?thesis by simp
qed

text \<open>Powers of two: with odd draws every search returns the divisor 2.\<close>

lemma odd_gcd_pow2:
  assumes b: "odd (b::int)"
  shows "gcd (2 * b) (2 ^ Suc k) = 2"
proof -
  have "coprime b (2 ^ k)" using b by (simp add: coprime_right_2_iff_odd)
  then have "gcd b (2 ^ k) = 1" by simp
  moreover have "gcd (2 * b) (2 * 2 ^ k) = 2 * gcd b (2 ^ k)"
    using gcd_mult_distrib_int [of 2 b "2 ^ k"] by simp
  ultimately show ?thesis by simp
qed

lemma pow2_gt_2:
  "(2::int) < 2 ^ Suc (Suc m)"
proof -
  have "(1::int) \<le> 2 ^ m" "(2::int) ^ Suc (Suc m) = 4 * 2 ^ m" by simp_all
  then show ?thesis by linarith
qed

lemma not_isprime_pow2:
  "\<not> isprime ((2::int) ^ Suc (Suc m))"
proof -
  have "1 < (2::int)" and "(2::int) dvd 2 ^ Suc (Suc m)" by simp_all
  with pow2_gt_2 [of m] show ?thesis unfolding isprime_iff by blast
qed

lemma get_next_pow2:
  assumes odd: "\<And>j M. odd (r j 1 M)"
  shows "get_next r s (2 ^ Suc n) = Some (replicate (Suc n) 2, s + 3 * n)"
proof (induction n arbitrary: s)
  case 0
  have "isprime 2" by (simp add: isprime_def upto.simps)
  then show ?case by (simp add: get_next.simps [of r s 2])
next
  case (Suc m)
  let ?N = "(2::int) ^ Suc (Suc m)"
  have N2: "2 < ?N" by (rule pow2_gt_2)
  then have l: "lenstra r s ?N = Some (2, s + 3)"
    using lenstra_even_one_round [of ?N r s] odd_gcd_pow2 [OF odd [of "Suc s" ?N], of "Suc m"]
    by simp
  have rt: "retry_lenstra r (s + 3) ?N 2 = Some (2, s + 3)"
    using N2 by (subst retry_lenstra.simps) simp
  have p2: "isprime 2" by (simp add: isprime_def upto.simps)
  have g2: "get_next r (s + 3) 2 = Some ([2], s + 3)"
    using p2 by (simp add: get_next.simps [of r "s + 3" 2])
  have "(1::int) \<le> 2 ^ m" by simp
  then have ne: "(2::int) * 2 ^ m \<noteq> 1" by linarith
  have gc: "get_next r (s + 3) (2 ^ Suc m) = Some (replicate (Suc m) 2, s + 3 + 3 * m)"
    by (rule Suc.IH)
  have "get_next r s ?N = Some ([2] @ replicate (Suc m) 2, s + 3 + 3 * m)"
    using l rt g2 gc not_isprime_pow2 [of m] ne by (subst get_next.simps) (simp add: Let_def)
  then show ?case by simp
qed

text \<open>
  The recursion on proper factors is well founded: the driver returns when every
  search and every retry loop it starts returns.
\<close>

lemma get_next_terminates:
  assumes srch: "\<And>s M. 1 < M \<Longrightarrow> \<not> isprime M \<Longrightarrow> M dvd N0 \<Longrightarrow> \<exists>d0 s1. lenstra r s M = Some (d0, s1)"
    and rtry: "\<And>s M d0 s1. 1 < M \<Longrightarrow> \<not> isprime M \<Longrightarrow> M dvd N0 \<Longrightarrow> lenstra r s M = Some (d0, s1)
                 \<Longrightarrow> \<exists>d s2. retry_lenstra r s1 M d0 = Some (d, s2)"
    and "1 < N" and "N dvd N0"
  shows "\<exists>fs s'. get_next r s N = Some (fs, s')"
  using assms(3,4)
proof (induction N arbitrary: s rule: measure_induct_rule [where f = nat])
  case (less N)
  show ?case
  proof (cases "isprime N")
    case True
    then show ?thesis by (simp add: get_next.simps [of r s N])
  next
    case False
    obtain d0 s1 where l: "lenstra r s N = Some (d0, s1)" using srch [OF less.prems(1) False less.prems(2)] by blast
    obtain d s2 where rt: "retry_lenstra r s1 N d0 = Some (d, s2)"
      using rtry [OF less.prems(1) False less.prems(2) l] by blast
    have pr: "1 < d \<and> d < N \<and> 1 < N div d \<and> N div d < N"
    proof -
      have "1 < d0 \<and> d0 dvd N" using lenstra_result [OF l] less.prems(1) by simp
      with rt less.prems(1) have "1 < d \<and> d dvd N \<and> d \<noteq> N" by (intro retry_lenstra_result)
      with less.prems(1) show ?thesis using proper_divisor_cofactor by blast
    qed
    have dN: "d dvd N"
      using retry_lenstra_result [OF rt less.prems(1)] lenstra_result [OF l] less.prems(1) by simp
    then have "N = d * (N div d)" by simp
    then have "N div d dvd N" by (metis dvd_triv_right)
    with dN less.prems(2) have dd: "d dvd N0" and cd: "N div d dvd N0"
      by (blast intro: dvd_trans)+
    obtain fs1 s3 where g1: "get_next r s2 d = Some (fs1, s3)"
      using less.IH [of d s2] pr dd by auto
    obtain fs2 s4 where g2: "get_next r s3 (N div d) = Some (fs2, s4)"
      using less.IH [of "N div d" s3] pr cd by auto
    have "get_next r s N = Some (fs1 @ fs2, s4)"
      using False l rt g1 g2 pr by (simp add: get_next.simps [of r s N])
    then show ?thesis by blast
  qed
qed

lemma composite_dvd_4:
  "1 < M \<Longrightarrow> \<not> isprime M \<Longrightarrow> M dvd 4 \<Longrightarrow> M = 4"
proof -
  assume M: "1 < M" "\<not> isprime M" "M dvd 4"
  have "M \<le> 4" using M(3) by (rule zdvd_imp_le) simp
  moreover have "isprime 2" "isprime 3" by (simp_all add: isprime_def upto.simps)
  ultimately show "M = 4" using M(1,2) by (cases "M = 2 \<or> M = 3") auto
qed

subsection \<open>Properties of the driver\<close>

text \<open>
  C1. Correctness of the factorisation: whenever \<open>factorization(N)\<close> returns a list
  for \<open>N > 1\<close>, whatever the random draws were, the list is made of primes (in the
  sense of the primality oracle) and its product is \<open>N\<close>.
\<close>

theorem factorization_correct:
  assumes "factorization r s N = Some (Factor_List fs, s')" and "1 < N"
  shows "prod_list fs = N \<and> list_all isprime fs"
proof -
  from assms(1) have "get_next r s N = Some (fs, s')"
    by (auto simp: factorization_def split: if_splits)
  then show ?thesis using assms(2) by (rule get_next_correct)
qed

lemma lenstra_91:
  "lenstra (\<lambda>j lo hi. if j = 2 then 3 else lo) 0 91 = Some (7, 3)"
proof -
  have "lenstra_fuel 10 \<lparr>ec_a = 3, ec_b = (1 * 1 - 1 * 1 * 1 - 3 * 1) mod 91, ec_N = 91, ec_div = 1\<rparr>
          (Some (Point 1 1)) 2 = Some \<lparr>ec_a = 3, ec_b = 88, ec_N = 91, ec_div = 7\<rparr>"
    by code_simp
  then have "lenstra_loop \<lparr>ec_a = 3, ec_b = (1 * 1 - 1 * 1 * 1 - 3 * 1) mod 91, ec_N = 91, ec_div = 1\<rparr>
          (Some (Point 1 1)) 2 = Some \<lparr>ec_a = 3, ec_b = 88, ec_N = 91, ec_div = 7\<rparr>"
    by (rule lenstra_fuel_loop)
  then show ?thesis by (simp add: lenstra_def lenstra_init_def new_curve_def Let_def)
qed

lemma factorization_91:
  "factorization (\<lambda>j lo hi. if j = 2 then 3 else lo) 0 91 = Some (Factor_List [7, 13], 3)"
  using lenstra_91
  by (simp add: factorization_def get_next.simps [of _ 0 91] get_next.simps [of _ 3 7]
      get_next.simps [of _ 3 13] retry_lenstra.simps [of _ 3 91 7] isprime_def upto.simps)

theorem factorization_correct_witness:
  "factorization (\<lambda>j lo hi. if j = 2 then 3 else lo) 0 91 = Some (Factor_List [7, 13], 3)
   \<and> prod_list [7, 13 :: int] = 91 \<and> list_all isprime [7, 13]"
  using factorization_correct [OF factorization_91] factorization_91 by simp

text \<open>
  C2. The recursion of the driver is on proper factors: on a composite \<open>N > 1\<close>, the
  divisor that survives the \<open>while div == N\<close> retry and the cofactor \<open>N // div\<close>
  both lie strictly between 1 and \<open>N\<close>. The code's test \<open>if not numb == 1\<close> is
  therefore always true, and both recursive calls are on smaller numbers.
\<close>

theorem get_next_divisors_proper:
  assumes "\<not> isprime N" and "1 < N"
    and "lenstra r s N = Some (d0, s1)" and "retry_lenstra r s1 N d0 = Some (d, s2)"
  shows "1 < d \<and> d < N \<and> 1 < N div d \<and> N div d < N"
proof -
  have "1 < d0 \<and> d0 dvd N" using lenstra_result [OF assms(3)] assms(2) by simp
  with assms(4,2) have "1 < d \<and> d dvd N \<and> d \<noteq> N" by (intro retry_lenstra_result)
  with assms(2) show ?thesis using proper_divisor_cofactor by blast
qed

theorem get_next_divisors_proper_witness:
  "\<not> isprime 91 \<and> 1 < (91::int)
   \<and> lenstra (\<lambda>j lo hi. if j = 2 then 3 else lo) 0 91 = Some (7, 3)
   \<and> retry_lenstra (\<lambda>j lo hi. if j = 2 then 3 else lo) 3 91 7 = Some (7, 3)
   \<and> 1 < (7::int) \<and> 7 < (91::int) \<and> 1 < (91::int) div 7 \<and> (91::int) div 7 < 91"
proof -
  have p: "\<not> isprime 91" by (simp add: isprime_def upto.simps)
  have rt: "retry_lenstra (\<lambda>j lo hi. if j = 2 then 3 else lo) 3 91 7 = Some (7, 3)"
    by (simp add: retry_lenstra.simps [of _ 3 91 7])
  show ?thesis
    using get_next_divisors_proper [OF p _ lenstra_91 rt] p lenstra_91 rt by simp
qed

text \<open>
  C3. The specification's example \<open>factor(4) = {2, 2}\<close>: whenever the second random
  draw (the base point's \<open>y\<close>) is odd, \<open>factorization(4)\<close> stops after one curve
  and returns \<open>[2, 2]\<close>.
\<close>

theorem factorization_four:
  assumes "odd (r (Suc s) 1 4)"
  shows "factorization r s 4 = Some (Factor_List [2, 2], s + 3)"
proof -
  have l: "lenstra r s 4 = Some (2, s + 3)"
    using lenstra_even_one_round [of 4 r s] odd_gcd_four [OF assms] by simp
  have p: "\<not> isprime 4" "isprime 2" by (simp_all add: isprime_def upto.simps)
  have g2: "get_next r (s + 3) 2 = Some ([2], s + 3)"
    using p by (simp add: get_next.simps [of r "s + 3" 2])
  have rt: "retry_lenstra r (s + 3) 4 2 = Some (2, s + 3)"
    by (simp add: retry_lenstra.simps [of r "s + 3" 4 2])
  show ?thesis
    using l p g2 rt by (simp add: factorization_def get_next.simps [of r s 4])
qed

theorem factorization_four_witness:
  "odd ((\<lambda>j lo hi. lo) (Suc 0) (1::int) (4::int))
   \<and> factorization (\<lambda>j lo hi. lo) 0 4 = Some (Factor_List [2, 2], 3)"
  using factorization_four [of "\<lambda>j lo hi. lo" 0] by simp

text \<open>
  C28. Powers of two are factored completely: when every draw of the random source is
  odd, \<open>factorization(2^(n+2))\<close> returns the list of \<open>n + 2\<close> twos after
  \<open>n + 1\<close> curves (three draws each), each search stopping in its first round with
  the divisor \<open>gcd(2b, 2^j) = 2\<close>.
\<close>

theorem factorization_pow2:
  assumes "\<And>j M. odd (r j 1 M)"
  shows "factorization r s (2 ^ Suc (Suc n))
           = Some (Factor_List (replicate (Suc (Suc n)) 2), s + 3 * Suc n)"
  using get_next_pow2 [where r = r, OF assms, of s "Suc n"] not_isprime_pow2 [of n]
  by (simp add: factorization_def)

theorem factorization_pow2_witness:
  "odd (1::int) \<and> factorization (\<lambda>j lo hi. lo) 0 8 = Some (Factor_List [2, 2, 2], 6)"
  using factorization_pow2 [of "\<lambda>j lo hi. lo" 0 1] by (simp add: numeral_eq_Suc)



text \<open>
  C30. Termination of the recursive driver relative to the random search: on a
  composite \<open>N > 1\<close>, if every call \<open>lenstra(M)\<close> on a composite divisor \<open>M\<close> of
  \<open>N\<close> returns, and every \<open>while div == M\<close> retry loop after it returns, then
  \<open>factorization(N)\<close> returns a list. The recursion itself cannot diverge: both
  recursive calls are on proper factors (measure \<open>N\<close>).
\<close>

theorem factorization_terminates:
  assumes "\<And>s M. 1 < M \<Longrightarrow> \<not> isprime M \<Longrightarrow> M dvd N \<Longrightarrow> \<exists>d0 s1. lenstra r s M = Some (d0, s1)"
    and "\<And>s M d0 s1. 1 < M \<Longrightarrow> \<not> isprime M \<Longrightarrow> M dvd N \<Longrightarrow> lenstra r s M = Some (d0, s1)
           \<Longrightarrow> \<exists>d s2. retry_lenstra r s1 M d0 = Some (d, s2)"
    and "1 < N" and "\<not> isprime N"
  shows "\<exists>fs s'. factorization r s N = Some (Factor_List fs, s')"
proof -
  have "\<exists>fs s'. get_next r s N = Some (fs, s')"
  proof (rule get_next_terminates [where N0 = N])
    show "\<exists>d0 s1. lenstra r s M = Some (d0, s1)" if "1 < M" "\<not> isprime M" "M dvd N" for s M
      using that by (rule assms(1))
    show "\<exists>d s2. retry_lenstra r s1 M d0 = Some (d, s2)"
      if "1 < M" "\<not> isprime M" "M dvd N" "lenstra r s M = Some (d0, s1)" for s M d0 s1
      using that by (rule assms(2))
  qed (use assms(3) in simp_all)
  then obtain fs s' where "get_next r s N = Some (fs, s')" by blast
  with assms(4) show ?thesis by (auto simp: factorization_def)
qed

theorem factorization_terminates_witness:
  "\<exists>fs s'. factorization (\<lambda>j lo hi. lo) 0 4 = Some (Factor_List fs, s')"
proof -
  let ?r = "\<lambda>(j::nat) (lo::int) (hi::int). lo"
  have l: "\<And>s. lenstra ?r s 4 = Some (2, s + 3)"
    using lenstra_even_one_round [of 4 ?r] by (simp add: eval_simps)
  have srch: "\<exists>d0 s1. lenstra ?r s M = Some (d0, s1)"
    if "1 < M" "\<not> isprime M" "M dvd 4" for s M
    using composite_dvd_4 [OF that] l by simp
  have rtry: "\<exists>d s2. retry_lenstra ?r s1 M d0 = Some (d, s2)"
    if "1 < M" "\<not> isprime M" "M dvd 4" "lenstra ?r s M = Some (d0, s1)" for s M d0 s1
  proof -
    have "M = 4" using composite_dvd_4 [OF that(1-3)] .
    with that(4) l have "d0 = 2" by simp
    with \<open>M = 4\<close> show ?thesis by (simp add: retry_lenstra.simps [of ?r s1 4 2])
  qed
  have "\<not> isprime 4" by (simp add: isprime_def upto.simps)
  then show ?thesis using factorization_terminates [of 4 ?r 0, OF srch rtry] by simp
qed

text \<open>
  C37. The program never returns on \<open>N = 1\<close>, whatever the random draws: the
  oracle calls 1 not prime, so \<open>factorization(1)\<close> runs \<open>lenstra(1)\<close>, and
  modulo 1 no gcd is ever different from 1, so \<open>E.div\<close> stays 1, the point never
  becomes \<open>None\<close> and \<open>while E.div == 1\<close> loops for ever. The specification asks
  for an \<open>InvalidInput\<close> error on \<open>N \<le> 1\<close>.
\<close>

theorem factorization_one_diverges: "factorization r s 1 = None"
proof -
  have "\<not> isprime 1" by (simp add: isprime_def)
  then show ?thesis
    using lenstra_one_diverges [of r s] by (simp add: factorization_def get_next.simps [of r s 1])
qed

end
