(* ===== verification/Report.thy ===== *)
theory Report
  imports Factor "HOL-Library.Multiset"
begin

text \<open>
  The reporting layer of \<^verbatim>\<open>src/main.py\<close>: \<open>to_dict(data)\<close> counts each value of
  the factor list (\<open>{key: data.count(key) for key in set(data)}\<close>) and rebuilds the
  dict from its items sorted by key. A Python dict keeps insertion order, so the result
  is an association list sorted by key. The \<open>__main__\<close> block prints
  \<open>to_dict(factorization(N))\<close> when \<open>N\<close> is composite; \<open>report\<close> is that value
  (\<open>None\<close> when nothing is printed), with the random source and the draw counter as
  parameters.
\<close>

definition to_dict :: "int list \<Rightarrow> (int \<times> nat) list" where
  "to_dict data = map (\<lambda>key. (key, count_list data key)) (sorted_list_of_set (set data))"

definition report :: "rng \<Rightarrow> nat \<Rightarrow> int \<Rightarrow> (int \<times> nat) list option" where
  "report r s N =
     (if \<not> isprime N then
        (case factorization r s N of
           Some (Factor_List fs, s') \<Rightarrow> Some (to_dict fs)
         | _ \<Rightarrow> None)
      else None)"

declare to_dict_def [model_defs] report_def [model_defs]

text \<open>Expanding a multiplicity list back into a list of values.\<close>

definition expand :: "(int \<times> nat) list \<Rightarrow> int list" where
  "expand d = concat (map (\<lambda>(k, c). replicate c k) d)"

subsection \<open>Counting\<close>

lemma sorted_concat_replicate:
  "sorted ks \<Longrightarrow> sorted (concat (map (\<lambda>k. replicate (f k) k) ks))"
proof (induction ks)
  case Nil
  then show ?case by simp
next
  case (Cons k ks)
  then show ?case by (auto simp: sorted_append)
qed

lemma count_concat_replicate:
  "distinct ks \<Longrightarrow>
     count (mset (concat (map (\<lambda>k. replicate (f k) k) ks))) x = (if x \<in> set ks then f x else 0)"
  by (induction ks) auto

lemma expand_to_dict:
  "expand (to_dict data) = concat (map (\<lambda>k. replicate (count_list data k) k) (sorted_list_of_set (set data)))"
  by (simp add: expand_def to_dict_def comp_def)

lemma mset_expand_to_dict:
  "mset (expand (to_dict data)) = mset data"
proof (rule multiset_eqI)
  fix x
  have "count (mset (expand (to_dict data))) x = (if x \<in> set data then count_list data x else 0)"
    by (simp add: expand_to_dict count_concat_replicate del: count_mset)
  then show "count (mset (expand (to_dict data))) x = count (mset data) x"
    by (simp add: count_mset count_list_0_iff)
qed

lemma sorted_expand_to_dict:
  "sorted (expand (to_dict data))"
  unfolding expand_to_dict by (rule sorted_concat_replicate) simp

lemma prod_list_expand:
  "prod_list (expand d) = prod_list (map (\<lambda>(k, c). k ^ c) d)"
  by (induction d) (auto simp: expand_def)

lemma length_expand:
  "length (expand d) = sum_list (map snd d)"
  by (induction d) (auto simp: expand_def)

lemma prod_list_sort_int:
  "prod_list (sort (xs :: int list)) = prod_list xs"
  by (metis mset_sort prod_mset_prod_list)

lemma to_dict_member:
  "(k, c) \<in> set (to_dict fs) \<Longrightarrow> k \<in> set fs \<and> c = count_list fs k \<and> 0 < c"
  by (auto simp: to_dict_def count_list_pos)

lemma prod_list_to_dict:
  "prod_list (map (\<lambda>(k, c). k ^ c) (to_dict fs)) = prod_list fs"
proof -
  have "prod_list (map (\<lambda>(k, c). k ^ c) (to_dict fs)) = prod_list (expand (to_dict fs))"
    by (simp add: prod_list_expand)
  also have "\<dots> = prod_mset (mset (expand (to_dict fs)))"
    by (simp add: prod_mset_prod_list)
  also have "\<dots> = prod_list fs"
    by (simp add: mset_expand_to_dict prod_mset_prod_list)
  finally show ?thesis .
qed

lemma factorization_get_next:
  "factorization r s N = Some (Factor_List fs, s') \<Longrightarrow> get_next r s N = Some (fs, s')"
  by (auto simp: factorization_def split: if_splits)

lemma to_dict_isprime:
  "list_all isprime fs \<Longrightarrow> list_all (\<lambda>(k, c). isprime k \<and> 0 < c) (to_dict fs)"
  by (auto simp: list_all_iff dest: to_dict_member)

text \<open>What \<open>report\<close> prints is the dictionary of a prime factorisation of \<open>N\<close>.\<close>

lemma report_fs:
  assumes "report r s N = Some d" and "1 < N"
  shows "\<exists>fs. d = to_dict fs \<and> prod_list fs = N \<and> list_all isprime fs"
proof -
  from assms(1) obtain fs s' where f: "factorization r s N = Some (Factor_List fs, s')"
      and d: "d = to_dict fs"
    by (auto simp: report_def split: if_splits option.splits fact_result.splits)
  have "prod_list fs = N \<and> list_all isprime fs"
    using get_next_correct [OF factorization_get_next [OF f] assms(2)] .
  with d show ?thesis by blast
qed

subsection \<open>Properties of the report\<close>

text \<open>
  C16. The dictionary round trip: expanding each key of \<open>to_dict(data)\<close> as many
  times as its count gives back \<open>data\<close> sorted. Nothing is lost or counted twice.
\<close>

theorem to_dict_roundtrip:
  "expand (to_dict data) = sort data"
  using mset_expand_to_dict [of data] sorted_expand_to_dict [of data]
  by (metis properties_for_sort)

text \<open>
  C17. Shape of the dictionary: its keys are the distinct values of \<open>data\<close> in
  increasing order, each with its count in \<open>data\<close>, which is positive, and the counts
  add up to the length of \<open>data\<close>.
\<close>

theorem to_dict_shape:
  "sorted (map fst (to_dict data)) \<and> distinct (map fst (to_dict data))
   \<and> set (map fst (to_dict data)) = set data
   \<and> list_all (\<lambda>(k, c). c = count_list data k \<and> 0 < c) (to_dict data)
   \<and> sum_list (map snd (to_dict data)) = length data"
proof -
  have keys: "map fst (to_dict data) = sorted_list_of_set (set data)"
    by (simp add: to_dict_def comp_def)
  have "length (expand (to_dict data)) = sum_list (map snd (to_dict data))"
    by (rule length_expand)
  moreover have "length (expand (to_dict data)) = length data"
    using mset_expand_to_dict [of data] by (metis size_mset)
  moreover have "list_all (\<lambda>(k, c). c = count_list data k \<and> 0 < c) (to_dict data)"
    by (auto simp: to_dict_def list_all_iff count_list_pos)
  ultimately show ?thesis using keys by simp
qed

end
