(* ===== verification/Entry.thy ===== *)
theory Entry
  imports Report
begin

text \<open>
  The \<open>__main__\<close> block of \<^verbatim>\<open>src/main.py\<close> with its fixed input: the script factors
  \<open>N = 1234569454241865415611952418521\<close> and prints \<open>to_dict(factorization(N))\<close> when
  the oracle says \<open>N\<close> is composite. The random source and the draw counter stay
  parameters. Since \<open>N = 13 \<cdot> 43 \<cdot> 167 \<cdot> 383 \<cdot> 121188227 \<cdot> 284923350497477\<close>, the
  four small factors can be checked by the oracle's own trial division; the two large
  ones cannot, so the lemmas pin down the small part of what is printed and the
  product of the rest.
\<close>

definition main_N :: int where
  "main_N = 1234569454241865415611952418521"

definition main :: "rng \<Rightarrow> nat \<Rightarrow> (int \<times> nat) list option" where
  "main r s = report r s main_N"

declare main_N_def [model_defs] main_def [model_defs]

subsection \<open>Primes of the oracle\<close>

lemma isprime_gcd:
  assumes "isprime p"
  shows "gcd p a = 1 \<or> gcd p a = p"
proof -
  have p: "1 < p" using assms by (simp add: isprime_iff)
  have "gcd p a dvd p" by simp
  moreover have "0 < gcd p a" using p by simp
  moreover have "gcd p a \<le> p" using p by (simp add: zdvd_imp_le)
  moreover have "\<not> (1 < gcd p a \<and> gcd p a < p)"
    using assms \<open>gcd p a dvd p\<close> by (auto simp: isprime_iff)
  ultimately show ?thesis by linarith
qed

lemma isprime_dvd_mult:
  assumes "isprime p" and "p dvd a * b"
  shows "p dvd a \<or> p dvd b"
proof (cases "gcd p a = 1")
  case True
  then have "coprime p a" by (simp add: coprime_iff_gcd_eq_1)
  with assms(2) show ?thesis by (simp add: coprime_dvd_mult_right_iff)
next
  case False
  with isprime_gcd [OF assms(1)] have "gcd p a = p" by blast
  then have "p dvd a" by (metis gcd_dvd2)
  then show ?thesis ..
qed

lemma isprime_dvd_isprime:
  assumes "isprime p" and "isprime q" and "p dvd q"
  shows "p = q"
proof -
  have "1 < p" using assms(1) by (simp add: isprime_iff)
  moreover have "p \<le> q" using assms(2,3) by (simp add: isprime_iff zdvd_imp_le)
  ultimately show ?thesis using assms(2,3) by (auto simp: isprime_iff)
qed

lemma isprime_dvd_prod_list:
  assumes "isprime p" and "list_all isprime fs" and "p dvd prod_list fs"
  shows "p \<in> set fs"
  using assms(2,3)
proof (induction fs)
  case Nil
  then have "p dvd 1" by simp
  with assms(1) show ?case by (simp add: isprime_iff)
next
  case (Cons f fs)
  from Cons.prems have "p dvd f \<or> p dvd prod_list fs"
    using isprime_dvd_mult [OF assms(1)] by simp
  with Cons assms(1) show ?case by (auto dest: isprime_dvd_isprime)
qed

lemma prod_list_count:
  "prod_list (fs :: int list) = p ^ count_list fs p * prod_list (filter (\<lambda>x. x \<noteq> p) fs)"
  by (induction fs) (auto simp: mult_ac)

lemma count_list_le_1:
  assumes "prod_list fs = (N :: int)" and "\<not> p * p dvd N"
  shows "count_list fs p \<le> 1"
proof (rule ccontr)
  assume "\<not> count_list fs p \<le> 1"
  then have "count_list fs p = Suc (Suc (count_list fs p - 2))" by arith
  then have "p ^ count_list fs p = (p * p) * p ^ (count_list fs p - 2)"
    by (metis mult.assoc power_Suc)
  then have "p * p dvd p ^ count_list fs p" by simp
  then have "p * p dvd p ^ count_list fs p * prod_list (filter (\<lambda>x. x \<noteq> p) fs)"
    by (rule dvd_mult2)
  then have "p * p dvd N" using assms(1) prod_list_count [of fs p] by simp
  with assms(2) show False ..
qed

lemma map_of_to_dict:
  "p \<in> set fs \<Longrightarrow> map_of (to_dict fs) p = Some (count_list fs p)"
  by (simp add: to_dict_def map_of_map_restrict restrict_map_def)

text \<open>
  A prime that divides \<open>N\<close> exactly once appears in every printed dictionary with
  multiplicity 1.
\<close>

lemma report_simple_prime:
  assumes r: "report r s N = Some d" and N: "1 < N"
    and p: "isprime p" "p dvd N" "\<not> p * p dvd N"
  shows "map_of d p = Some 1"
proof -
  from report_fs [OF r N] obtain fs where d: "d = to_dict fs"
      and c: "prod_list fs = N" "list_all isprime fs"
    by blast
  then have "p \<in> set fs" using p(1,2) by (intro isprime_dvd_prod_list) simp_all
  moreover from this have "0 < count_list fs p" by (simp add: count_list_pos)
  moreover have "count_list fs p \<le> 1" using c p(3) by (intro count_list_le_1) simp_all
  ultimately show ?thesis using d by (simp add: map_of_to_dict)
qed

lemma isprime_small:
  "isprime 13" "isprime 43" "isprime 167" "isprime 383"
  by code_simp+

lemma main_N_facts:
  "1 < main_N" "\<not> isprime main_N"
  "13 dvd main_N" "\<not> 13 * 13 dvd main_N" "43 dvd main_N" "\<not> 43 * 43 dvd main_N"
  "167 dvd main_N" "\<not> 167 * 167 dvd main_N" "383 dvd main_N" "\<not> 383 * 383 dvd main_N"
proof -
  show "1 < main_N" "13 dvd main_N" "\<not> 13 * 13 dvd main_N" "43 dvd main_N" "\<not> 43 * 43 dvd main_N"
    "167 dvd main_N" "\<not> 167 * 167 dvd main_N" "383 dvd main_N" "\<not> 383 * 383 dvd main_N"
    by (simp_all add: main_N_def)
  have "1 < (13::int)" "13 < main_N" by (simp_all add: main_N_def)
  with \<open>13 dvd main_N\<close> show "\<not> isprime main_N" unfolding isprime_iff by blast
qed

subsection \<open>What the script prints\<close>

text \<open>
  C33. The script's own run: the fixed \<open>N\<close> is composite (13 divides it), so
  \<open>__main__\<close> prints nothing only when \<open>factorization(N)\<close> never returns; and every
  dictionary it can print holds the primes 13, 43, 167 and 383 with multiplicity 1,
  has only prime keys with positive counts, and multiplies out to \<open>N\<close>, whatever the
  random draws were.
\<close>

lemma main_None_iff:
  "main r s = None \<longleftrightarrow> factorization r s main_N = None"
  using main_N_facts(2)
  by (auto simp: main_def report_def factorization_def split: option.splits fact_result.splits)

theorem main_output:
  "\<not> isprime main_N
   \<and> (main r s = None \<longleftrightarrow> factorization r s main_N = None)
   \<and> pred_option (\<lambda>d. map_of d 13 = Some 1 \<and> map_of d 43 = Some 1 \<and> map_of d 167 = Some 1
                     \<and> map_of d 383 = Some 1 \<and> prod_list (map (\<lambda>(k, c). k ^ c) d) = main_N
                     \<and> list_all (\<lambda>(k, c). isprime k \<and> 0 < c) d) (main r s)"
proof (cases "main r s")
  case None
  then have "factorization r s main_N = None" using main_None_iff by blast
  with None main_N_facts(2) show ?thesis by simp
next
  case (Some d)
  then have r: "report r s main_N = Some d" by (simp add: main_def)
  note rs = report_simple_prime [OF r main_N_facts(1)]
  have "map_of d 13 = Some 1" "map_of d 43 = Some 1" "map_of d 167 = Some 1" "map_of d 383 = Some 1"
    using rs isprime_small main_N_facts by simp_all
  moreover obtain fs where "d = to_dict fs" "prod_list fs = main_N" "list_all isprime fs"
    using report_fs [OF r main_N_facts(1)] by blast
  then have "list_all (\<lambda>(k, c). isprime k \<and> 0 < c) d \<and> prod_list (map (\<lambda>(k, c). k ^ c) d) = main_N"
    by (simp add: to_dict_isprime prod_list_to_dict)
  moreover have "factorization r s main_N \<noteq> None" using Some main_None_iff [of r s] by auto
  ultimately show ?thesis using Some main_N_facts(2) by simp
qed

end
