(* ===== verification/Format.thy ===== *)
theory Format
  imports Entry
begin

text \<open>
  The text the program produces: \<open>Point.__repr__\<close> (\<open>f"(x,y) = ({x}, {y})"\<close>) and the
  line that \<open>__main__\<close> prints, \<open>f'{to_dict(...)}'\<close>, which is the \<open>repr\<close> of a
  dict of ints, \<open>{k: v, k: v}\<close>. Python's \<open>str\<close> of an int (decimal digits, a
  minus sign for negatives) and \<open>', '.join\<close> are written out from CPython's
  behaviour. The parsers after them are not part of the program: they are the
  inverses that the round-trip theorems use to show that the printed text determines
  the value printed.
\<close>

subsection \<open>Printing\<close>

text \<open>\<open>str(n)\<close> for \<open>n \<ge> 0\<close>, and \<open>str(i)\<close> for any int.\<close>

fun nat_str :: "nat \<Rightarrow> string" where
  "nat_str n =
     (if n < 10 then [char_of (48 + n)] else nat_str (n div 10) @ [char_of (48 + n mod 10)])"

definition int_str :: "int \<Rightarrow> string" where
  "int_str i = (if i < 0 then CHR ''-'' # nat_str (nat (- i)) else nat_str (nat i))"

text \<open>\<open>Point.__repr__\<close>.\<close>

definition point_repr :: "point \<Rightarrow> string" where
  "point_repr P = ''(x,y) = ('' @ int_str (px P) @ '', '' @ int_str (py P) @ '')''"

text \<open>\<open>sep.join(ws)\<close>, and \<open>repr\<close> of a dict with int keys and counts.\<close>

fun join_sep :: "string \<Rightarrow> string list \<Rightarrow> string" where
  "join_sep sep [] = []"
| "join_sep sep [w] = w"
| "join_sep sep (w # ws) = w @ sep @ join_sep sep ws"

definition dict_repr :: "(int \<times> nat) list \<Rightarrow> string" where
  "dict_repr d =
     ''{'' @ join_sep '', '' (map (\<lambda>(k, c). int_str k @ '': '' @ nat_str c) d) @ ''}''"

text \<open>\<open>print(f'{to_dict(factorization(N))}')\<close>: the text the script writes.\<close>

definition main_stdout :: "rng \<Rightarrow> nat \<Rightarrow> string" where
  "main_stdout r s = (case main r s of None \<Rightarrow> [] | Some d \<Rightarrow> dict_repr d @ [CHR 0x0A])"

declare nat_str.simps [simp del] nat_str.simps [eval_simps]

subsection \<open>Reading the text back\<close>

definition digit_of :: "char \<Rightarrow> nat option" where
  "digit_of c = (let n = of_char c in if 48 \<le> n \<and> n < 58 then Some (n - 48) else None)"

fun parse_digits :: "nat \<Rightarrow> string \<Rightarrow> nat option" where
  "parse_digits acc [] = Some acc"
| "parse_digits acc (c # cs) =
     (case digit_of c of None \<Rightarrow> None | Some d \<Rightarrow> parse_digits (10 * acc + d) cs)"

definition parse_nat :: "string \<Rightarrow> nat option" where
  "parse_nat s = (if s = [] then None else parse_digits 0 s)"

definition parse_int :: "string \<Rightarrow> int option" where
  "parse_int s =
     (if s \<noteq> [] \<and> hd s = CHR ''-'' then map_option (\<lambda>n. - int n) (parse_nat (tl s))
      else map_option int (parse_nat s))"

fun splitc :: "char \<Rightarrow> string \<Rightarrow> string list" where
  "splitc c [] = [[]]"
| "splitc c (x # xs) = (if x = c then [] # splitc c xs else (let ws = splitc c xs in (x # hd ws) # tl ws))"

definition drop_space :: "string \<Rightarrow> string" where
  "drop_space w = (if w \<noteq> [] \<and> hd w = CHR '' '' then tl w else w)"

definition parse_point :: "string \<Rightarrow> point option" where
  "parse_point s =
     (if take 9 s = ''(x,y) = ('' \<and> s \<noteq> [] \<and> last s = CHR '')'' then
        (case splitc (CHR '','') (butlast (drop 9 s)) of
           [a, b] \<Rightarrow>
             (case (parse_int a, parse_int (drop_space b)) of
                (Some x, Some y) \<Rightarrow> Some (Point x y)
              | _ \<Rightarrow> None)
         | _ \<Rightarrow> None)
      else None)"

definition parse_item :: "string \<Rightarrow> (int \<times> nat) option" where
  "parse_item w =
     (case splitc (CHR '':'') (drop_space w) of
        [a, b] \<Rightarrow>
          (case (parse_int a, parse_nat (drop_space b)) of
             (Some k, Some c) \<Rightarrow> Some (k, c)
           | _ \<Rightarrow> None)
      | _ \<Rightarrow> None)"

definition parse_dict :: "string \<Rightarrow> (int \<times> nat) list option" where
  "parse_dict s =
     (if s \<noteq> [] \<and> hd s = CHR ''{'' \<and> last s = CHR ''}'' \<and> 2 \<le> length s then
        (let inner = butlast (tl s)
         in if inner = [] then Some [] else those (map parse_item (splitc (CHR '','') inner)))
      else None)"

subsection \<open>Digits and separators\<close>

lemma digit_of_char [simp]: "d < 10 \<Longrightarrow> digit_of (char_of (48 + d)) = Some d"
  by (simp add: digit_of_def Let_def of_char_of)

lemma parse_digits_append:
  "parse_digits acc (xs @ ys) = (case parse_digits acc xs of None \<Rightarrow> None | Some a \<Rightarrow> parse_digits a ys)"
  by (induction xs arbitrary: acc) (auto split: option.split)

lemma parse_digits_nat_str: "parse_digits 0 (nat_str n) = Some n"
proof (induction n rule: nat_str.induct)
  case (1 n)
  show ?case
  proof (cases "n < 10")
    case True
    then show ?thesis by (subst nat_str.simps) simp
  next
    case False
    then have "parse_digits 0 (nat_str n)
        = parse_digits (n div 10) [char_of (48 + n mod 10)]"
      using "1.IH" by (subst nat_str.simps) (simp add: parse_digits_append)
    also have "\<dots> = Some n" by simp
    finally show ?thesis .
  qed
qed

lemma nat_str_nonempty [simp]: "nat_str n \<noteq> []"
  by (subst nat_str.simps) simp

lemma nat_str_digits: "c \<in> set (nat_str n) \<Longrightarrow> digit_of c \<noteq> None"
proof (induction n rule: nat_str.induct)
  case (1 n)
  then show ?case by (subst (asm) nat_str.simps) (auto split: if_splits)
qed

lemma parse_nat_nat_str [simp]: "parse_nat (nat_str n) = Some n"
  by (simp add: parse_nat_def parse_digits_nat_str)

lemma not_digit:
  "digit_of CHR ''-'' = None" "digit_of CHR '','' = None" "digit_of CHR '':'' = None"
  "digit_of CHR '' '' = None"
  by (simp_all add: digit_of_def)

lemma int_str_chars:
  assumes "c \<in> set (int_str i)"
  shows "digit_of c \<noteq> None \<or> c = CHR ''-''"
  using assms nat_str_digits by (auto simp: int_str_def split: if_splits)

lemma int_str_nonempty [simp]: "int_str i \<noteq> []"
  by (simp add: int_str_def)

lemma nat_str_hd: "hd (nat_str n) \<noteq> CHR ''-''"
proof
  assume "hd (nat_str n) = CHR ''-''"
  then have "CHR ''-'' \<in> set (nat_str n)" using hd_in_set [OF nat_str_nonempty [of n]] by simp
  with nat_str_digits not_digit(1) show False by blast
qed

lemma int_str_hd: "hd (int_str i) \<noteq> CHR '' ''"
proof (cases "i < 0")
  case False
  have "digit_of (hd (nat_str (nat i))) \<noteq> None"
    by (rule nat_str_digits [OF hd_in_set [OF nat_str_nonempty [of "nat i"]]])
  with False not_digit(4) show ?thesis by (auto simp: int_str_def)
qed (simp add: int_str_def)

lemma parse_int_int_str [simp]: "parse_int (int_str i) = Some i"
  using nat_str_hd by (auto simp: parse_int_def int_str_def)

lemma sep_not_in_int_str:
  "CHR '','' \<notin> set (int_str i)" "CHR '':'' \<notin> set (int_str i)"
  using int_str_chars not_digit by fastforce+

lemma sep_not_in_nat_str:
  "CHR '','' \<notin> set (nat_str n)" "CHR '':'' \<notin> set (nat_str n)"
  using nat_str_digits not_digit by fastforce+

lemma splitc_free: "c \<notin> set w \<Longrightarrow> splitc c w = [w]"
  by (induction w) (auto simp: Let_def)

lemma splitc_append: "c \<notin> set w \<Longrightarrow> splitc c (w @ c # r) = w # splitc c r"
  by (induction w) (auto simp: Let_def)

lemma drop_space_int_str [simp]: "drop_space (int_str i @ w) = int_str i @ w"
  using int_str_hd [of i] by (simp add: drop_space_def)

lemma drop_space_Cons [simp]: "drop_space (CHR '' '' # w) = w"
  by (simp add: drop_space_def)

lemma splitc_join:
  assumes "ws \<noteq> []" and "\<forall>w\<in>set ws. c \<notin> set w" and "c \<noteq> CHR '' ''"
  shows "splitc c (join_sep [c, CHR '' ''] ws) = hd ws # map (\<lambda>w. CHR '' '' # w) (tl ws)"
  using assms(1,2)
proof (induction ws)
  case (Cons w ws)
  show ?case
  proof (cases ws)
    case Nil
    with Cons.prems show ?thesis by (simp add: splitc_free)
  next
    case (Cons v vs)
    have "splitc c (join_sep [c, CHR '' ''] (w # ws))
          = w # splitc c (CHR '' '' # join_sep [c, CHR '' ''] ws)"
      using Cons \<open>\<forall>w\<in>set (w # ws). c \<notin> set w\<close> by (simp add: splitc_append)
    also have "\<dots> = w # map (\<lambda>w. CHR '' '' # w) ws"
      using Cons.IH \<open>\<forall>w\<in>set (w # ws). c \<notin> set w\<close> Cons assms(3) by (simp add: Let_def)
    finally show ?thesis by simp
  qed
qed simp

lemma parse_item_repr [simp]:
  "parse_item (int_str k @ CHR '':'' # CHR '' '' # nat_str c) = Some (k, c)"
  "parse_item (CHR '' '' # int_str k @ CHR '':'' # CHR '' '' # nat_str c) = Some (k, c)"
proof -
  have sp: "splitc (CHR '':'') (int_str k @ CHR '':'' # CHR '' '' # nat_str c) = [int_str k, CHR '' '' # nat_str c]"
    using sep_not_in_int_str(2) sep_not_in_nat_str(2)
    by (simp add: splitc_append splitc_free)
  then show "parse_item (int_str k @ CHR '':'' # CHR '' '' # nat_str c) = Some (k, c)"
    by (simp add: parse_item_def)
  from sp show "parse_item (CHR '' '' # int_str k @ CHR '':'' # CHR '' '' # nat_str c) = Some (k, c)"
    by (simp add: parse_item_def)
qed

lemma those_map_Some: "those (map Some xs) = Some xs"
  by (induction xs) simp_all

subsection \<open>Round trips\<close>

text \<open>
  C35. \<open>Point.__repr__\<close> loses nothing: the text \<open>(x,y) = (x, y)\<close> of a point
  parses back to the same point, negative coordinates included; two points print
  alike only if they are equal.
\<close>

theorem point_repr_roundtrip:
  "parse_point (point_repr P) = Some P"
proof -
  let ?X = "int_str (px P)" and ?Y = "int_str (py P)"
  have d: "butlast (drop 9 (point_repr P)) = ?X @ CHR '','' # CHR '' '' # ?Y"
    by (simp add: point_repr_def butlast_append)
  have "splitc (CHR '','') (?X @ CHR '','' # CHR '' '' # ?Y) = [?X, CHR '' '' # ?Y]"
    using sep_not_in_int_str(1) by (simp add: splitc_append splitc_free)
  with d show ?thesis
    by (simp add: parse_point_def point_repr_def drop_space_def)
qed

lemma dict_repr_roundtrip:
  "parse_dict (dict_repr d) = Some d"
proof (cases d)
  case Nil
  then show ?thesis by (simp add: parse_dict_def dict_repr_def)
next
  case (Cons e d')
  obtain k c where e: "e = (k, c)" by fastforce
  let ?ws = "map (\<lambda>(k, c). int_str k @ '': '' @ nat_str c) d"
  have ws: "?ws \<noteq> []" using Cons by simp
  have free: "\<forall>w\<in>set ?ws. CHR '','' \<notin> set w"
    using sep_not_in_int_str(1) sep_not_in_nat_str(1) by auto
  have sp: "splitc (CHR '','') (join_sep '', '' ?ws) = hd ?ws # map (\<lambda>w. CHR '' '' # w) (tl ?ws)"
    using splitc_join [OF ws free] by simp
  have "map parse_item (hd ?ws # map (\<lambda>w. CHR '' '' # w) (tl ?ws)) = map Some d"
    using Cons e by (simp add: case_prod_beta)
  moreover have "join_sep '', '' ?ws \<noteq> []"
    using Cons e by (cases d') simp_all
  ultimately show ?thesis
    using sp by (simp add: parse_dict_def dict_repr_def those_map_Some)
qed

text \<open>
  C36. What the script writes: either nothing (the oracle finds \<open>N\<close> prime, or the
  search does not return), or one line, ended by a newline, from which the dictionary
  that \<open>main\<close> computed is read back exactly: the \<open>repr\<close> of the dict loses no key,
  count or order.
\<close>

theorem main_stdout_roundtrip:
  "(main_stdout r s = [] \<and> main r s = None)
   \<or> (last (main_stdout r s) = CHR 0x0A \<and> parse_dict (butlast (main_stdout r s)) = main r s)"
  by (cases "main r s") (simp_all add: main_stdout_def dict_repr_roundtrip)

text \<open>The printed forms on sample values, as Python prints them.\<close>

lemma repr_samples:
  "dict_repr [(7, 1), (13, 1)] = ''{7: 1, 13: 1}''"
  "point_repr (Point 71 (- 3)) = ''(x,y) = (71, -3)''"
  by code_simp+

end
