(* ===== verification/Outcome.thy ===== *)
theory Outcome
  imports Scalar
begin

text \<open>
  The abstract specification of the point addition and its refinement by
  \<open>EllipticCurve.sum\<close>. The specification's \<open>add\<close> has three distinguishable
  outcomes: a point, the identity \<open>Infinity\<close>, and a failure carrying the divisor
  \<open>gcd(element, N)\<close>. The code has no such type: it returns Python \<open>None\<close> both for
  the identity and for a failure, and reports a failure through the side channel
  \<open>E.div\<close>. Here the specification is written with a tagged result, the code's
  result is read back through the observable state, and the refinement lemmas show
  when the reading recovers the specified outcome.
\<close>

datatype add_result = Pt point | Infinity | Failure int

text \<open>
  \<open>add(p, q)\<close> of the specification (section 4.2), on points or \<open>Infinity\<close>
  (\<open>None\<close>): the identity rules, then the doubling and the distinct-point cases, each
  with its gcd test before the inverse is taken.
\<close>

definition spec_add :: "curve \<Rightarrow> point option \<Rightarrow> point option \<Rightarrow> add_result" where
  "spec_add E p q =
     (case p of
        None \<Rightarrow> (case q of None \<Rightarrow> Infinity | Some Q \<Rightarrow> Pt Q)
      | Some P \<Rightarrow>
        (case q of
           None \<Rightarrow> Pt P
         | Some Q \<Rightarrow>
           (if P = Q then
              (let g = gcd (2 * py P) (ec_N E)
               in if g \<noteq> 1 then Failure g
                  else (let l = (3 * px P * px P + ec_a E) * inverse_mod (2 * py P) (ec_N E);
                            x' = (l * l - 2 * px P) mod ec_N E
                        in Pt (Point x' ((l * (px P - x') - py P) mod ec_N E))))
            else
              (let g = gcd (px Q - px P) (ec_N E)
               in if g \<noteq> 1 then Failure g
                  else (let l = (py Q - py P) * inverse_mod (px Q - px P) (ec_N E);
                            x' = (l * l - px P - px Q) mod ec_N E
                        in Pt (Point x' ((l * (px P - x') - py P) mod ec_N E)))))))"

text \<open>
  Reading the code's result back: a point is a point; \<open>None\<close> is a failure when
  \<open>div\<close> holds a value other than 1 afterwards, and the identity otherwise.
\<close>

definition decode :: "curve \<times> point option \<Rightarrow> add_result" where
  "decode r =
     (case r of
        (E', Some R) \<Rightarrow> Pt R
      | (E', None) \<Rightarrow> if ec_div E' = 1 then Infinity else Failure (ec_div E'))"

text \<open>The concrete effect the specification's outcome stands for.\<close>

definition encode :: "curve \<Rightarrow> add_result \<Rightarrow> curve \<times> point option" where
  "encode E a =
     (case a of
        Pt R \<Rightarrow> (E, Some R)
      | Infinity \<Rightarrow> (E, None)
      | Failure g \<Rightarrow> (E\<lparr>ec_div := g\<rparr>, None))"

declare spec_add_def [model_defs] decode_def [model_defs] encode_def [model_defs]

text \<open>
  \<open>scalarMultiply(p, k)\<close> of the specification on tagged results: the table of
  doublings \<open>p, 2p, 4p, \<dots>\<close> (a failure stays a failure), then the accumulation over
  the digits of \<open>bin(k)[2:]\<close> with the table entry of the same index, returning at
  once when an addition fails; and, as the specification asks, a failure anywhere in
  the table is the result.
\<close>

definition is_failure :: "add_result \<Rightarrow> bool" where
  "is_failure a = (case a of Failure g \<Rightarrow> True | _ \<Rightarrow> False)"

fun res_point :: "add_result \<Rightarrow> point option" where
  "res_point (Pt P) = Some P"
| "res_point _ = None"

definition add_r :: "curve \<Rightarrow> add_result \<Rightarrow> add_result \<Rightarrow> add_result" where
  "add_r E a b =
     (if is_failure a then a else if is_failure b then b else spec_add E (res_point a) (res_point b))"

fun spec_table :: "curve \<Rightarrow> add_result list \<Rightarrow> nat \<Rightarrow> add_result list" where
  "spec_table E t 0 = t"
| "spec_table E t (Suc n) = spec_table E (t @ [add_r E (last t) (last t)]) n"

fun spec_acc :: "curve \<Rightarrow> add_result list \<Rightarrow> string \<Rightarrow> nat \<Rightarrow> add_result \<Rightarrow> add_result" where
  "spec_acc E t [] i q = q"
| "spec_acc E t (v # vs) i q =
     (if v = CHR ''1'' then
        (let q' = add_r E (t ! i) q in if is_failure q' then q' else spec_acc E t vs (Suc i) q')
      else spec_acc E t vs (Suc i) q)"

definition spec_mult :: "curve \<Rightarrow> point \<Rightarrow> nat \<Rightarrow> add_result" where
  "spec_mult E P k =
     (let t = spec_table E [Pt P] (length (bin_str k) - 1)
      in case find is_failure t of
           Some f \<Rightarrow> f
         | None \<Rightarrow> spec_acc E t (bin_str k) 0 Infinity)"

text \<open>A code value read as a specified outcome that is not a failure.\<close>

fun lift :: "point option \<Rightarrow> add_result" where
  "lift (Some P) = Pt P"
| "lift None = Infinity"

declare add_r_def [model_defs] spec_mult_def [model_defs]

subsection \<open>The code implements the specification\<close>

lemma sum_ec_encode:
  "sum_ec E p q = encode E (spec_add E p q)"
  by (simp add: sum_ec_def spec_add_def encode_def Let_def split: option.split)

lemma spec_add_Failure_ne_one:
  "spec_add E p q = Failure g \<Longrightarrow> g \<noteq> 1"
  by (auto simp: spec_add_def Let_def split: option.splits if_splits)

lemma decode_encode:
  assumes "ec_div E = 1" and "a \<noteq> Failure 1"
  shows "decode (encode E a) = a"
  using assms by (cases a) (simp_all add: decode_def encode_def)

text \<open>Both loops of \<open>mult\<close> simulate the specified ones while no doubling fails.\<close>

lemma res_point_lift [simp]: "res_point (lift x) = x"
  by (cases x) simp_all

lemma is_failure_lift [simp]: "\<not> is_failure (lift x)"
  by (cases x) (simp_all add: is_failure_def)

lemma is_failure_Pt [simp]: "\<not> is_failure (Pt P)"
  by (simp add: is_failure_def)

lemma add_r_lift: "add_r E (lift x) (lift y) = spec_add E x y"
  by (simp add: add_r_def)

lemma spec_add_Some_not_Infinity:
  "spec_add E (Some P) (Some Q) \<noteq> Infinity"
  by (simp add: spec_add_def Let_def)

lemma spec_table_prefix:
  "\<exists>u. spec_table E t n = t @ u"
  by (induction n arbitrary: t) (simp, metis append.assoc spec_table.simps(2))

lemma double_loop_refines:
  assumes "ec_div E = 1" and "pws \<noteq> []" and "list_all (\<lambda>x. x \<noteq> None) pws"
    and "\<not> list_ex is_failure (spec_table E (map lift pws) n)"
  shows "\<exists>pws'. double_loop sum_ec E pws n = (E, pws') \<and> map lift pws' = spec_table E (map lift pws) n
           \<and> list_all (\<lambda>x. x \<noteq> None) pws'"
  using assms(2-4)
proof (induction n arbitrary: pws)
  case 0
  then show ?case by simp
next
  case (Suc n)
  have "last pws \<in> set pws" using Suc.prems(1) by simp
  then obtain P where lp: "last pws = Some P" using Suc.prems(2) by (auto simp: list_all_iff)
  have lt: "last (map lift pws) = Pt P" using lp Suc.prems(1) by (simp add: last_map)
  define a where "a = spec_add E (Some P) (Some P)"
  have tab: "spec_table E (map lift pws) (Suc n) = spec_table E (map lift pws @ [a]) n"
    using lt by (simp add: add_r_def is_failure_def a_def)
  have "\<not> is_failure a"
  proof
    assume "is_failure a"
    moreover obtain u where "spec_table E (map lift pws @ [a]) n = (map lift pws @ [a]) @ u"
      using spec_table_prefix by blast
    ultimately show False using Suc.prems(3) tab by (simp add: list_ex_iff)
  qed
  moreover have "a \<noteq> Infinity" unfolding a_def by (rule spec_add_Some_not_Infinity)
  ultimately obtain R where aR: "a = Pt R" by (cases a) (simp_all add: is_failure_def)
  have s: "sum_ec E (Some P) (Some P) = (E, Some R)"
    using aR by (simp add: sum_ec_encode encode_def a_def)
  have "map lift (pws @ [Some R]) = map lift pws @ [a]" using aR by simp
  then have "\<exists>pws'. double_loop sum_ec E (pws @ [Some R]) n = (E, pws')
      \<and> map lift pws' = spec_table E (map lift (pws @ [Some R])) n \<and> list_all (\<lambda>x. x \<noteq> None) pws'"
    using Suc.prems(2,3) tab by (intro Suc.IH) simp_all
  then show ?case using lp s tab \<open>map lift (pws @ [Some R]) = map lift pws @ [a]\<close> by simp
qed

lemma acc_loop_refines:
  assumes "ec_div E = 1" and "i + length vs \<le> length pws" and "list_all (\<lambda>x. x \<noteq> None) pws"
  shows "decode (acc_loop sum_ec E pws vs i q) = spec_acc E (map lift pws) vs i (lift q)"
  using assms(2)
proof (induction vs arbitrary: i q)
  case Nil
  show ?case using assms(1) by (cases q) (simp_all add: decode_def)
next
  case (Cons v vs)
  have i: "i < length pws" using Cons.prems by simp
  with assms(3) obtain P where P: "pws ! i = Some P" by (cases "pws ! i") (auto simp: list_all_length)
  have ti: "map lift pws ! i = Pt P" using i P by simp
  show ?case
  proof (cases "v = CHR ''1''")
    case False
    with Cons.IH [of "Suc i" q] Cons.prems show ?thesis by simp
  next
    case True
    define a where "a = spec_add E (Some P) q"
    have s: "sum_ec E (Some P) q = encode E a" by (simp add: sum_ec_encode a_def)
    have ar: "add_r E (map lift pws ! i) (lift q) = a" using ti is_failure_Pt by (simp add: add_r_def a_def)
    show ?thesis
    proof (cases a)
      case (Pt R)
      then have "\<not> is_failure a" by (simp add: is_failure_def)
      with Cons.IH [of "Suc i" "Some R"] Cons.prems True P s ar Pt show ?thesis
        by (simp add: encode_def Let_def)
    next
      case Infinity
      moreover have "a \<noteq> Infinity"
        by (cases q) (simp_all add: a_def spec_add_Some_not_Infinity, simp add: spec_add_def)
      ultimately show ?thesis by simp
    next
      case (Failure g)
      then have "g \<noteq> 1" using spec_add_Failure_ne_one [of E "Some P" q g] by (simp add: a_def)
      with True P s ar Failure show ?thesis by (simp add: encode_def decode_def is_failure_def Let_def)
    qed
  qed
qed

subsection \<open>Refinement\<close>

text \<open>
  C31. \<open>sum\<close> refines the specification's \<open>add\<close>: on a curve object whose
  \<open>div\<close> is still 1, reading the returned point and the field \<open>div\<close> afterwards
  recovers exactly the specified outcome, a point, \<open>Infinity\<close> or
  \<open>Failure(gcd)\<close>. The overloaded \<open>None\<close> loses nothing as long as no failure has
  been recorded before.
\<close>

theorem sum_ec_refines_spec_add:
  assumes "ec_div E = 1"
  shows "decode (sum_ec E p q) = spec_add E p q"
proof -
  have "spec_add E p q \<noteq> Failure 1" using spec_add_Failure_ne_one by blast
  with assms show ?thesis by (simp add: sum_ec_encode decode_encode)
qed

theorem sum_ec_refines_spec_add_witness:
  "ec_div (new_curve 1 1 15) = 1
   \<and> decode (sum_ec (new_curve 1 1 15) (Some (Point 2 5)) (Some (Point 2 5))) = Failure 5
   \<and> spec_add (new_curve 1 1 15) (Some (Point 2 5)) (Some (Point 2 5)) = Failure 5"
proof -
  have d: "ec_div (new_curve 1 1 15) = 1" by (simp add: new_curve_def)
  have "decode (sum_ec (new_curve 1 1 15) (Some (Point 2 5)) (Some (Point 2 5))) = Failure 5"
    by (simp add: model_defs eval_simps)
  with sum_ec_refines_spec_add [OF d, of "Some (Point 2 5)" "Some (Point 2 5)"] d show ?thesis
    by simp
qed

text \<open>
  C32. The refinement needs the fresh field: once \<open>div\<close> holds a divisor \<open>g\<close>, a
  failure of \<open>sum\<close> with the same \<open>g\<close> leaves the object and the result exactly as
  \<open>sum(None, None)\<close> does, although the specification tells \<open>Failure g\<close> from
  \<open>Infinity\<close>. The code then has only two observable outcomes, not the three the
  specification requires.
\<close>

theorem sum_ec_failure_hidden:
  assumes "ec_div E = g" and "spec_add E (Some P) (Some Q) = Failure g"
  shows "sum_ec E (Some P) (Some Q) = sum_ec E None None
         \<and> spec_add E (Some P) (Some Q) \<noteq> spec_add E None None"
proof -
  have "sum_ec E (Some P) (Some Q) = (E\<lparr>ec_div := g\<rparr>, None)"
    using assms(2) by (simp add: sum_ec_encode encode_def)
  moreover have "E\<lparr>ec_div := g\<rparr> = E" using assms(1) by simp
  ultimately show ?thesis using assms(2) by (simp add: spec_add_def)
qed

theorem sum_ec_failure_hidden_witness:
  "sum_ec \<lparr>ec_a = 1, ec_b = 1, ec_N = 15, ec_div = 5\<rparr> (Some (Point 2 5)) (Some (Point 2 5))
     = (\<lparr>ec_a = 1, ec_b = 1, ec_N = 15, ec_div = 5\<rparr>, None)
   \<and> spec_add \<lparr>ec_a = 1, ec_b = 1, ec_N = 15, ec_div = 5\<rparr> (Some (Point 2 5)) (Some (Point 2 5))
       = Failure 5"
proof -
  have f: "spec_add \<lparr>ec_a = 1, ec_b = 1, ec_N = 15, ec_div = 5\<rparr> (Some (Point 2 5)) (Some (Point 2 5))
       = Failure 5"
    by (simp add: model_defs eval_simps)
  have "ec_div \<lparr>ec_a = 1, ec_b = 1, ec_N = 15, ec_div = 5\<rparr> = 5" by simp
  from sum_ec_failure_hidden [OF this f] f show ?thesis by simp
qed

text \<open>
  C34. The refinement lifted to \<open>mult\<close>: on a fresh curve object, as long as no
  doubling of the table fails, the point or \<open>None\<close> that \<open>mult\<close> returns, read with
  \<open>div\<close>, is the outcome of the specification's \<open>scalarMultiply\<close>, failures in the
  accumulation included. The hypothesis cannot be dropped: a failed doubling is a
  failure of the specification but not of the code (C22).
\<close>

theorem mult_ec_refines_spec_mult:
  assumes "ec_div E = 1" and "\<not> list_ex is_failure (spec_table E [Pt P] (length (bin_str k) - 1))"
  shows "decode (mult_ec E (Some P) k) = spec_mult E P k"
proof -
  let ?n = "length (bin_str k) - 1"
  obtain pws where d: "double_loop sum_ec E [Some P] ?n = (E, pws)"
      and t: "map lift pws = spec_table E [Pt P] ?n" and nn: "list_all (\<lambda>x. x \<noteq> None) pws"
    using double_loop_refines [of E "[Some P]" ?n] assms by auto
  have "length pws = length (bin_str k)"
    using double_loop_length [of sum_ec E "[Some P]" ?n] d by simp
  then have "decode (acc_loop sum_ec E pws (bin_str k) 0 None)
             = spec_acc E (map lift pws) (bin_str k) 0 Infinity"
    using acc_loop_refines [where vs = "bin_str k" and i = 0 and q = None, OF assms(1) _ nn] by simp
  moreover have "find is_failure (spec_table E [Pt P] ?n) = None"
    using assms(2) by (simp add: find_None_iff list_ex_iff)
  ultimately show ?thesis using d t by (simp add: mult_ec_def mult_with_def spec_mult_def Let_def)
qed

theorem mult_ec_refines_spec_mult_witness:
  "ec_div \<lparr>ec_a = 1, ec_b = 86, ec_N = 91, ec_div = 1\<rparr> = 1
   \<and> spec_table \<lparr>ec_a = 1, ec_b = 86, ec_N = 91, ec_div = 1\<rparr> [Pt (Point 3 5)] (length (bin_str 3) - 1)
       = [Pt (Point 3 5), Pt (Point 71 23)]
   \<and> decode (mult_ec \<lparr>ec_a = 1, ec_b = 86, ec_N = 91, ec_div = 1\<rparr> (Some (Point 3 5)) 3)
       = Pt (Point 14 59)
   \<and> spec_mult \<lparr>ec_a = 1, ec_b = 86, ec_N = 91, ec_div = 1\<rparr> (Point 3 5) 3 = Pt (Point 14 59)"
proof -
  have t: "spec_table \<lparr>ec_a = 1, ec_b = 86, ec_N = 91, ec_div = 1\<rparr> [Pt (Point 3 5)] (length (bin_str 3) - 1)
       = [Pt (Point 3 5), Pt (Point 71 23)]"
    by (simp add: model_defs eval_simps is_failure_def Let_def)
  have m: "decode (mult_ec \<lparr>ec_a = 1, ec_b = 86, ec_N = 91, ec_div = 1\<rparr> (Some (Point 3 5)) 3)
       = Pt (Point 14 59)"
    by (simp add: model_defs eval_simps Let_def)
  have "\<not> list_ex is_failure [Pt (Point 3 5), Pt (Point 71 23)]" by (simp add: is_failure_def)
  with t have h: "\<not> list_ex is_failure
      (spec_table \<lparr>ec_a = 1, ec_b = 86, ec_N = 91, ec_div = 1\<rparr> [Pt (Point 3 5)] (length (bin_str 3) - 1))"
    by simp
  have "ec_div \<lparr>ec_a = 1, ec_b = 86, ec_N = 91, ec_div = 1\<rparr> = 1" by simp
  from mult_ec_refines_spec_mult [OF this h] t m show ?thesis by simp
qed

end
