(* ===== verification/Draws.thy ===== *)
theory Draws
  imports Lenstra
begin

text \<open>
  The random source of \<^verbatim>\<open>src/main.py\<close>: \<open>a, b, A = [random.randint(1, N) for _ in
  range(3)]\<close> in \<open>lenstra\<close>. \<open>random.randint\<close> is CPython library code, written out
  here from its source: \<open>randint(a, b) = randrange(a, b + 1)\<close>, which raises
  \<open>ValueError\<close> on an empty range and otherwise adds \<open>_randbelow(width)\<close> to the
  start; \<open>_randbelow(n)\<close> draws \<open>getrandbits(k)\<close> with \<open>k = n.bit_length()\<close> until
  the value is below \<open>n\<close>. The generator's \<open>getrandbits\<close> (Mersenne Twister) is the
  parameter \<open>g\<close>: its \<open>j\<close>-th call with \<open>k\<close> bits; the call counter is threaded as
  state. The rejection loop has no bound, so it is a \<^theory_text>\<open>partial_function\<close> in the
  option monad, and the error is a value of \<open>py_error + _\<close>.
\<close>

text \<open>\<open>getrandbits(k)\<close> at its \<open>j\<close>-th call; the generator's contract is \<open>0 \<le> g j k < 2^k\<close>.\<close>

type_synonym bitsrc = "nat \<Rightarrow> nat \<Rightarrow> int"

datatype py_error = ValueError

text \<open>\<open>n.bit_length()\<close> for \<open>n \<ge> 0\<close>.\<close>

fun bit_len :: "nat \<Rightarrow> nat" where
  "bit_len n = (if n = 0 then 0 else Suc (bit_len (n div 2)))"

declare bit_len.simps [simp del] bit_len.simps [eval_simps]

text \<open>\<open>r = getrandbits(k); while r >= n: r = getrandbits(k); return r\<close>\<close>

partial_function (option) randbelow_loop :: "bitsrc \<Rightarrow> nat \<Rightarrow> nat \<Rightarrow> int \<Rightarrow> (int \<times> nat) option" where
  "randbelow_loop g j k n = (if g j k < n then Some (g j k, Suc j) else randbelow_loop g (Suc j) k n)"

definition randbelow :: "bitsrc \<Rightarrow> nat \<Rightarrow> int \<Rightarrow> (int \<times> nat) option" where
  "randbelow g j n = randbelow_loop g j (bit_len (nat n)) n"

definition randrange :: "bitsrc \<Rightarrow> nat \<Rightarrow> int \<Rightarrow> int \<Rightarrow> (py_error + int \<times> nat) option" where
  "randrange g j start stop =
     (let width = stop - start
      in if 0 < width then map_option (\<lambda>(r, j'). Inr (start + r, j')) (randbelow g j width)
         else Some (Inl ValueError))"

definition randint :: "bitsrc \<Rightarrow> nat \<Rightarrow> int \<Rightarrow> int \<Rightarrow> (py_error + int \<times> nat) option" where
  "randint g j a b = randrange g j a (b + 1)"

text \<open>Sequencing of calls that may raise: an exception is passed on, unchanged.\<close>

definition bind_py :: "(py_error + 'a) option \<Rightarrow> ('a \<Rightarrow> (py_error + 'b) option) \<Rightarrow> (py_error + 'b) option" where
  "bind_py x f = (case x of None \<Rightarrow> None | Some (Inl e) \<Rightarrow> Some (Inl e) | Some (Inr v) \<Rightarrow> f v)"

text \<open>\<open>a, b, A = [random.randint(1, N) for _ in range(3)]\<close>\<close>

definition lenstra_draws :: "bitsrc \<Rightarrow> nat \<Rightarrow> int \<Rightarrow> (py_error + (int \<times> int \<times> int) \<times> nat) option" where
  "lenstra_draws g j N =
     bind_py (randint g j 1 N) (\<lambda>(a, j1).
     bind_py (randint g j1 1 N) (\<lambda>(b, j2).
     bind_py (randint g j2 1 N) (\<lambda>(A, j3). Some (Inr ((a, b, A), j3)))))"

declare randbelow_loop.simps [eval_simps] randbelow_loop.simps [code]

subsection \<open>The draws\<close>

lemma randbelow_loop_range:
  assumes "randbelow_loop g j k n = Some (r, j')" and nonneg: "\<And>m k. 0 \<le> g m k"
  shows "0 \<le> r \<and> r < n \<and> j < j'"
proof -
  have "0 \<le> fst (r, j') \<and> fst (r, j') < n \<and> j < snd (r, j')"
  proof (rule randbelow_loop.raw_induct [where P = "\<lambda>g j k n y. (\<forall>m k. 0 \<le> g m k) \<longrightarrow> 0 \<le> fst y \<and> fst y < n \<and> j < snd y", OF _ assms(1), THEN mp])
    fix f g' j k n y
    assume IH: "\<And>g j k n y. f g j k n = Some y \<Longrightarrow> (\<forall>m k. 0 \<le> g m k) \<longrightarrow> 0 \<le> fst y \<and> fst y < n \<and> j < snd y"
      and eq: "(if g' j k < n then Some (g' j k, Suc j) else f g' (Suc j) k n) = Some y"
    show "(\<forall>m k. 0 \<le> g' m k) \<longrightarrow> 0 \<le> fst y \<and> fst y < n \<and> j < snd y"
    proof
      assume nn: "\<forall>m k. 0 \<le> g' m k"
      show "0 \<le> fst y \<and> fst y < n \<and> j < snd y"
      proof (cases "g' j k < n")
        case True
        with eq nn show ?thesis by auto
      next
        case False
        with eq have "f g' (Suc j) k n = Some y" by simp
        from IH [OF this] nn show ?thesis by auto
      qed
    qed
  qed (use nonneg in blast)
  then show ?thesis by simp
qed

lemma randint_range:
  assumes "randint g j a b = Some res" and "\<And>m k. 0 \<le> g m k"
  shows "(a \<le> b \<and> (\<exists>v j'. res = Inr (v, j') \<and> a \<le> v \<and> v \<le> b \<and> j < j'))
         \<or> (b < a \<and> res = Inl ValueError)"
proof (cases "a \<le> b")
  case True
  then obtain r j' where l: "randbelow g j (b + 1 - a) = Some (r, j')" and res: "res = Inr (a + r, j')"
    using assms(1) by (auto simp: randint_def randrange_def)
  have "randbelow_loop g j (bit_len (nat (b + 1 - a))) (b + 1 - a) = Some (r, j')"
    using l by (simp add: randbelow_def)
  then have "0 \<le> r \<and> r < b + 1 - a \<and> j < j'"
    using assms(2) by (rule randbelow_loop_range)
  with True res show ?thesis by auto
next
  case False
  with assms(1) show ?thesis by (simp add: randint_def randrange_def)
qed

lemma randbelow_loop_terminates:
  assumes "j \<le> m" and "g m k < n"
  shows "\<exists>r j'. randbelow_loop g j k n = Some (r, j')"
  using assms(1)
proof (induction "m - j" arbitrary: j)
  case 0
  then have "j = m" by simp
  with assms(2) have "g j k < n" by simp
  then show ?case by (simp add: randbelow_loop.simps [of g j k n])
next
  case (Suc d)
  show ?case
  proof (cases "g j k < n")
    case True
    then show ?thesis by (simp add: randbelow_loop.simps [of g j k n])
  next
    case False
    have "\<exists>r j'. randbelow_loop g (Suc j) k n = Some (r, j')"
      using Suc.hyps(2) Suc.prems by (intro Suc.hyps(1)) simp_all
    with False show ?thesis by (simp add: randbelow_loop.simps [of g j k n])
  qed
qed

lemma bind_py_Inr:
  "bind_py x f = Some (Inr v) \<Longrightarrow> \<exists>u. x = Some (Inr u) \<and> f u = Some (Inr v)"
  by (auto simp: bind_py_def split: option.splits sum.splits)

lemma randint_Inr_range:
  assumes "randint g j a b = Some (Inr (v, j'))" and "\<And>m k. 0 \<le> g m k"
  shows "a \<le> v \<and> v \<le> b \<and> j < j'"
  using randint_range [OF assms] by auto

lemma lenstra_draws_range:
  assumes "lenstra_draws g j N = Some (Inr ((a, b, A), j'))" and nn: "\<And>m k. 0 \<le> g m k"
  shows "1 \<le> a \<and> a \<le> N \<and> 1 \<le> b \<and> b \<le> N \<and> 1 \<le> A \<and> A \<le> N \<and> j + 3 \<le> j'"
proof -
  have "\<exists>j1 j2. randint g j 1 N = Some (Inr (a, j1)) \<and> randint g j1 1 N = Some (Inr (b, j2))
          \<and> randint g j2 1 N = Some (Inr (A, j'))"
    using assms(1) by (auto simp: lenstra_draws_def bind_py_def split: option.splits sum.splits)
  then obtain j1 j2 where r1: "randint g j 1 N = Some (Inr (a, j1))"
      and r2: "randint g j1 1 N = Some (Inr (b, j2))" and r3: "randint g j2 1 N = Some (Inr (A, j'))"
    by blast
  show ?thesis
    using randint_Inr_range [OF r1 nn] randint_Inr_range [OF r2 nn] randint_Inr_range [OF r3 nn] by auto
qed

subsection \<open>Properties of the random source\<close>

text \<open>
  C38. On \<open>N < 1\<close>, \<open>lenstra(N)\<close> raises \<open>ValueError\<close> at its first draw, for every
  generator and before any bit is drawn: \<open>randint(1, N)\<close> is \<open>randrange(1, N + 1)\<close>,
  an empty range. The specification asks for an \<open>InvalidInput\<close> error on \<open>N \<le> 1\<close>;
  the code raises the library's error for \<open>N < 1\<close> and loops for ever on \<open>N = 1\<close>
  (C37).
\<close>

theorem lenstra_draws_empty_range:
  "N < 1 \<Longrightarrow> lenstra_draws g j N = Some (Inl ValueError)"
  by (simp add: lenstra_draws_def randint_def randrange_def bind_py_def)

theorem lenstra_draws_empty_range_witness:
  "(0::int) < 1 \<and> lenstra_draws (\<lambda>m k. 0) 0 0 = Some (Inl ValueError)"
  using lenstra_draws_empty_range [of 0 "\<lambda>m k. 0" 0] by simp

lemma randint_terminates:
  assumes "a \<le> b" and "j \<le> m" and "g m (bit_len (nat (b + 1 - a))) < b + 1 - a"
  shows "\<exists>v j'. randint g j a b = Some (Inr (v, j'))"
proof -
  obtain r j' where "randbelow_loop g j (bit_len (nat (b + 1 - a))) (b + 1 - a) = Some (r, j')"
    using randbelow_loop_terminates [where g = g and k = "bit_len (nat (b + 1 - a))", OF assms(2,3)]
    by blast
  with assms(1) show ?thesis by (auto simp: randint_def randrange_def randbelow_def)
qed

text \<open>
  C39. The three draws of \<open>lenstra(N)\<close>, \<open>N \<ge> 1\<close>, return (and raise nothing)
  for every generator that, from any call on, eventually gives a value below \<open>N\<close>
  to \<open>getrandbits(N.bit_length())\<close>: each rejection loop of \<open>randint(1, N)\<close>
  returns as soon as one such value comes.
\<close>

theorem lenstra_draws_terminates:
  assumes "1 \<le> N" and "\<And>j'. \<exists>m\<ge>j'. g m (bit_len (nat N)) < N"
  shows "\<exists>a b A j'. lenstra_draws g j N = Some (Inr ((a, b, A), j'))"
proof -
  have r: "\<exists>v j''. randint g j' 1 N = Some (Inr (v, j''))" for j'
  proof -
    obtain m where "j' \<le> m" "g m (bit_len (nat N)) < N" using assms(2) [of j'] by blast
    then show ?thesis using assms(1) randint_terminates [of 1 N j' m g] by simp
  qed
  obtain a j1 where 1: "randint g j 1 N = Some (Inr (a, j1))" using r by blast
  obtain b j2 where 2: "randint g j1 1 N = Some (Inr (b, j2))" using r by blast
  obtain A j3 where 3: "randint g j2 1 N = Some (Inr (A, j3))" using r by blast
  from 1 2 3 show ?thesis by (simp add: lenstra_draws_def bind_py_def)
qed

theorem lenstra_draws_terminates_witness:
  "(1::int) \<le> 91 \<and> (\<forall>j'. \<exists>m\<ge>j'. (\<lambda>(m::nat) (k::nat). (0::int)) m (bit_len (nat 91)) < 91)
   \<and> (\<exists>a b A j'. lenstra_draws (\<lambda>m k. 0) 0 91 = Some (Inr ((a, b, A), j')))"
proof -
  have h: "\<And>j'. \<exists>m\<ge>j'. (\<lambda>(m::nat) (k::nat). (0::int)) m (bit_len (nat 91)) < 91" by auto
  have "(1::int) \<le> 91" by simp
  from lenstra_draws_terminates [OF this h, of 0] h show ?thesis by auto
qed

text \<open>
  C40. The curve that \<open>lenstra\<close> builds from its three draws: for a generator that
  meets its contract (non-negative values), the base point and the coefficient
  \<open>A\<close> lie in \<open>[1, N]\<close>, \<open>B = (b^2 - a^3 - A a) mod N\<close> lies in \<open>[0, N)\<close>, the curve
  object starts with \<open>div = 1\<close>, and the base point is on the curve.
\<close>

theorem lenstra_draws_curve:
  assumes "lenstra_draws g j N = Some (Inr ((a, b, A), j'))" and "\<And>m k. 0 \<le> g m k"
  shows "1 \<le> a \<and> a \<le> N \<and> 1 \<le> b \<and> b \<le> N \<and> 1 \<le> A \<and> A \<le> N
         \<and> ec_a (fst (lenstra_init N a b A)) = A
         \<and> 0 \<le> ec_b (fst (lenstra_init N a b A)) \<and> ec_b (fst (lenstra_init N a b A)) < N
         \<and> ec_N (fst (lenstra_init N a b A)) = N \<and> ec_div (fst (lenstra_init N a b A)) = 1
         \<and> fst (snd (lenstra_init N a b A)) = Some (Point a b)
         \<and> on_curve (fst (lenstra_init N a b A)) (Point a b)"
proof -
  have r: "1 \<le> a \<and> a \<le> N \<and> 1 \<le> b \<and> b \<le> N \<and> 1 \<le> A \<and> A \<le> N"
    using lenstra_draws_range [OF assms] by simp
  obtain E p i where init: "lenstra_init N a b A = (E, p, i)" by (cases "lenstra_init N a b A") auto
  have "pred_option (on_curve E) p" using init by (rule lenstra_init_on_curve)
  moreover have "p = Some (Point a b)" "ec_a E = A" "ec_N E = N" "ec_div E = 1"
      "ec_b E = (b * b - a * a * a - A * a) mod N"
    using init by (auto simp: lenstra_init_def new_curve_def Let_def)
  moreover have "0 < N" using r by simp
  ultimately show ?thesis using r init by simp
qed

theorem lenstra_draws_curve_witness:
  "lenstra_draws (\<lambda>m k. 0) 0 91 = Some (Inr ((1, 1, 1), 3))
   \<and> on_curve (fst (lenstra_init 91 1 1 1)) (Point 1 1)
   \<and> ec_b (fst (lenstra_init 91 1 1 1)) = 90"
proof -
  let ?g = "\<lambda>(m::nat) (k::nat). (0::int)"
  have b: "bit_len 91 = 7" by (simp add: eval_simps)
  have d: "lenstra_draws ?g 0 91 = Some (Inr ((1, 1, 1), 3))"
    by (simp add: lenstra_draws_def randint_def randrange_def randbelow_def bind_py_def b
        randbelow_loop.simps [of ?g _ 7 91])
  from lenstra_draws_curve [OF d] d show ?thesis
    by (simp add: lenstra_init_def new_curve_def)
qed

end
