(* ===== verification/Spec2Isabelle.thy ===== *)
theory Spec2Isabelle
  imports Format Outcome Draws
begin

text \<open>
  \<^bold>\<open>Lenstra elliptic-curve factorisation: a verification development of
  \<^verbatim>\<open>src/main.py\<close>.\<close>

  \<^bold>\<open>The program.\<close> One Python file. \<open>inverse(a, n)\<close> is \<open>pow(a, -1, n)\<close>.
  \<open>Point\<close> is an affine point with structural equality. \<open>EllipticCurve(a, b, N)\<close>
  holds the coefficients, the modulus and a field \<open>div\<close> (initially 1); its method
  \<open>sum\<close> adds two points over \<open>Z/NZ\<close> and, when the slope's denominator has a
  common factor \<open>g\<close> with \<open>N\<close>, stores \<open>g\<close> in \<open>div\<close> and returns \<open>None\<close>;
  \<open>None\<close> is also the code's point at infinity. \<open>mult(p, k)\<close> builds the table of
  doublings \<open>p, 2p, 4p, \<dots>\<close> and adds the entries selected by the digits of
  \<open>bin(k)[2:]\<close>. \<open>lenstra(N)\<close> draws a random curve through a random point and
  multiplies the point by \<open>2, 3, 4, \<dots>\<close> until \<open>div\<close> changes; \<open>factorization\<close>
  and \<open>get_next\<close> call it, retry while it returns \<open>N\<close>, and recurse on the divisor
  and the cofactor until the primality oracle \<open>sympy.isprime\<close> accepts every factor.
  \<open>to_dict\<close> counts the factors and the \<open>__main__\<close> block prints that
  dictionary.

  \<^bold>\<open>The theories.\<close>
  \<^item> \<open>Prelude\<close>: the adder interface \<open>('s, 'p) adder\<close> (a state-passing point
    addition), the random source \<open>rng\<close> (draw index, bounds \<open>\<mapsto>\<close> value, the draw
    counter being the state the model threads in place of Python's generator), the
    collections \<open>model_defs\<close> and \<open>eval_simps\<close>, and shared facts on \<open>gcd\<close>,
    congruences and option binds.
  \<^item> \<open>Modular\<close>: \<open>inverse_mod\<close> (\<open>inverse\<close>), by the extended Euclidean
    algorithm \<open>egcd\<close>; it is exactly Python's value wherever the code calls it.
  \<^item> \<open>Curve\<close>: \<open>point\<close> (class \<open>Point\<close>), the record \<open>curve\<close> (class
    \<open>EllipticCurve\<close>, fields \<open>ec_a, ec_b, ec_N, ec_div\<close>), \<open>new_curve\<close>
    (\<open>__init__\<close>) and \<open>sum_ec\<close> (\<open>sum\<close>), which returns the updated object
    beside the point or \<open>None\<close>; the invariant \<open>curve_inv\<close>; commutativity,
    the failure protocol, reduction of results; the predicate \<open>on_curve\<close>
    (\<open>y^2 = x^3 + ax + b\<close> modulo \<open>N\<close>, the class docstring) and the chord and
    tangent certificates showing that \<open>sum\<close> keeps points on the curve.
  \<^item> \<open>Scalar\<close>: \<open>bin_str\<close> (\<open>bin(k)[2:]\<close>), \<open>double_loop\<close> and \<open>acc_loop\<close>
    (the two loops of \<open>mult\<close>), \<open>mult_with\<close> (\<open>mult\<close> over any adder) and
    \<open>mult_ec = mult_with sum_ec\<close>. The abstract model is \<open>count_add\<close>, the
    adder on multiples of the base point, with the reference \<open>naive_mult\<close>
    (\<open>k\<close> sequential additions): through it the development shows which multiple
    the method computes.
  \<^item> \<open>Lenstra\<close>: \<open>lenstra_init\<close> (curve generation), \<open>lenstra_loop\<close> (the
    \<open>while E.div == 1\<close> loop, a \<^theory_text>\<open>partial_function\<close> in the option monad),
    \<open>lenstra\<close>; the fuel-indexed \<open>lenstra_fuel\<close>; the exit test \<open>loop_guard\<close>
    and \<open>mult_rounds\<close>, the run of multiplications by \<open>i, i + 1, \<dots>\<close> that the
    pseudocode comment above the loop describes; the step relation
    \<open>lenstra_step\<close> and its reachable states \<open>lenstra_reach\<close> with the invariant
    \<open>loop_inv\<close>, and the invariant that the running point stays on the curve.
  \<^item> \<open>Factor\<close>: the oracle \<open>isprime\<close>, \<open>retry_lenstra\<close> (\<open>while div == N\<close>),
    \<open>get_next\<close> (the mutual recursion of \<open>get_next\<close> and \<open>factorization\<close> on
    composite numbers), \<open>factorization\<close> with its result type \<open>fact_result\<close>.
  \<^item> \<open>Report\<close>: \<open>to_dict\<close> as an association list sorted by key (a Python dict
    keeps insertion order) and \<open>report\<close>, the value the \<open>__main__\<close> block prints.
  \<^item> \<open>Outcome\<close>: the specification's \<open>add\<close> with a tagged result
    (\<open>add_result\<close>: \<open>Pt\<close>, \<open>Infinity\<close>, \<open>Failure g\<close>) as \<open>spec_add\<close>, and
    \<open>decode\<close>, which reads the code's \<open>(E', point or None)\<close> back as such an
    outcome; \<open>sum_ec = encode \<circ> spec_add\<close>; the specification's
    \<open>scalarMultiply\<close> on tagged results (\<open>spec_table\<close>, \<open>spec_acc\<close>,
    \<open>spec_mult\<close>), and the refinement lemmas.
  \<^item> \<open>Entry\<close>: \<open>main_N\<close> and \<open>main\<close>, the \<open>__main__\<close> block with the script's
    fixed input, and facts on the oracle's primes (Euclid's lemma, multiplicities).
  \<^item> \<open>Format\<close>: the text the program writes: \<open>point_repr\<close>
    (\<open>Point.__repr__\<close>), \<open>dict_repr\<close> (the dict's \<open>repr\<close> in the f-string of
    \<open>__main__\<close>) and \<open>main_stdout\<close> (the printed line), over \<open>int_str\<close>,
    \<open>nat_str\<close> (Python's decimal \<open>str\<close>) and \<open>join_sep\<close> (\<open>str.join\<close>); with
    parsers inverse to them for the round-trip theorems.
  \<^item> \<open>Draws\<close>: the random source. \<open>lenstra_draws\<close> is the line
    \<open>a, b, A = [random.randint(1, N) for _ in range(3)]\<close> over CPython's
    \<open>randint\<close>, \<open>randrange\<close> and \<open>randbelow\<close> (the rejection loop
    \<open>randbelow_loop\<close>, a \<^theory_text>\<open>partial_function\<close>), written from the library's
    source with \<open>ValueError\<close> as a value of \<open>py_error + _\<close>; \<open>getrandbits\<close> is the
    parameter \<open>g\<close>.
  \<^item> This theory: the properties that span the driver and the report.

  \<^bold>\<open>What is proved.\<close> The driver is partially correct for every random source:
  a returned list is made of primes whose product is \<open>N\<close> (C1), and it recurses on
  proper factors only (C2); \<open>factor(4) = [2, 2]\<close> whenever the base point's \<open>y\<close> is
  odd (C3). The scalar multiplication does not compute \<open>kP\<close>: it computes \<open>k'P\<close>
  with \<open>k'\<close> the digit-reversal of \<open>k\<close> (C4), agrees with \<open>k\<close> additions
  exactly on binary palindromes (C5), returns \<open>P\<close> unchanged for every power of two
  (C6), and never returns \<open>None\<close> without recording a divisor (C7). In the search
  loop a \<open>None\<close> point only follows a recorded divisor, so the \<open>break\<close> never
  fires with \<open>div == 1\<close> (C8); the loop returns exactly the curve object of the
  first round that fails its exit test, multiplying by \<open>i, i + 1, \<dots>\<close> in turn (C9), and returns a divisor of \<open>N\<close> greater than 1 (C10). \<open>sum\<close> is
  commutative (C11), follows the failure protocol (C12) and reduces its results
  (C13); \<open>inverse\<close> meets \<open>pow\<close>'s contract (C14); \<open>bin\<close> round-trips (C15).
  \<open>to_dict\<close> loses nothing (C16) and has the expected shape (C17); what the program
  prints is a prime factorisation of \<open>N\<close> (C18), and for \<open>N = 91\<close> it is
  \<open>7 \<cdot> 13\<close> for every random source (C19). \<open>sum\<close> keeps points on the curve
  (C20), so the search's running point stays on the curve that \<open>B\<close> was chosen for
  (C21). A failed doubling is not propagated: \<open>mult\<close> then returns \<open>P\<close> with
  the divisor recorded (C22); doubling the multiplier never changes the point
  \<open>mult\<close> returns, so \<open>mult(P, 6) = mult(P, 3)\<close> (C23); \<open>P + (-P)\<close> records the
  uninformative divisor \<open>N\<close> instead of giving the point at infinity (C24).
  The table of doublings is \<open>P, 2P, \<dots>, 2^(m-1) P\<close>, one entry per digit
  (C25); \<open>mult\<close> never reads \<open>div\<close>, shown by a simulation between two runs
  that differ only in that field (C26); on an even \<open>N\<close> the search stops after
  one round with an even divisor, for every random source (C27), and with odd draws
  \<open>factorization(2^(n+2))\<close> returns \<open>n + 2\<close> twos (C28). For \<open>N > 1\<close>
  \<open>factorization\<close> returns the bare integer exactly on a prime, and otherwise a list
  of at least two factors none of which is \<open>N\<close> (C29). The driver returns whenever every search and retry loop it starts returns
  (C30), by well-founded induction on \<open>N\<close>. \<open>sum\<close> refines the specification's tagged \<open>add\<close>
  while \<open>div\<close> is still 1 (C31), but once a divisor is recorded a repeated failure
  cannot be told from the identity (C32). The refinement lifts to \<open>mult\<close> and the
  specification's \<open>scalarMultiply\<close> (\<open>spec_mult\<close>) as long as no doubling fails
  (C34), by a simulation of each of its two loops. The printed forms lose nothing: the \<open>repr\<close> of a
  point parses back to it (C35), and the script writes nothing or one line that
  parses back to exactly the dictionary it computed (C36). On \<open>N = 1\<close> the program never returns, for
  every random source: modulo 1 no gcd differs from 1, so the search loop has no exit
  (C37), where the specification asks for an \<open>InvalidInput\<close> error. On \<open>N < 1\<close>
  the first draw raises \<open>ValueError\<close> (C38); the three draws return
  for every generator that keeps giving accepted values (C39); and the three draws
  build a curve with coefficients in range and the base point on it (C40). The script's own \<open>N\<close> is composite, so it
  prints nothing only if the factorisation never returns, and every dictionary it can print
  holds 13, 43, 167 and 383 once each and multiplies out to \<open>N\<close> (C33).

  \<^bold>\<open>Fuel and termination.\<close> \<open>lenstra_loop\<close>, \<open>retry_lenstra\<close> and
  \<open>get_next\<close> have no termination argument in the code (the search is
  probabilistic); they are fixpoints in the option monad, \<open>None\<close> meaning "does not
  return". \<open>lenstra_fuel\<close> is the loop cut after \<open>n\<close> rounds, and the fixpoint
  returns exactly the results some fuel gives (\<open>lenstra_fuel_loop\<close>,
  \<open>lenstra_loop_fuel\<close>); the closed runs (on 15, 4
  and 91) are evaluated through it with ten rounds, more than the runs use.

  \<^bold>\<open>Not modelled.\<close> The module imports and the write of the printed line to
  the terminal (its text is \<open>main_stdout\<close>); \<open>numpy\<close> (imported, unused);
  the internals of \<open>sympy.isprime\<close>, replaced by the specification's contract
  (trial division), and the Mersenne Twister behind \<open>getrandbits\<close>, the parameter
  \<open>g\<close> of \<open>Draws\<close>. Past the curve construction the search and the driver take
  the draws as the parameter \<open>rng\<close> (draw index and bounds): \<open>Draws\<close> models the
  library's algorithm and its \<open>ValueError\<close> on \<open>N < 1\<close> (C38), and the driver's
  theorems are stated for \<open>N \<ge> 1\<close>. Python
  integers are unbounded and are modelled as \<open>int\<close>; the multiplier of \<open>mult\<close>
  is a \<open>nat\<close> because the code only passes \<open>i \<ge> 2\<close>. The accumulation reads
  \<open>powers_of_two[i]\<close> as \<open>pws ! i\<close>; Python's \<open>IndexError\<close> out of range is
  not a branch of the model because C25 shows every read index is in range. For the
  script's \<open>N\<close> the oracle's trial division is evaluated only on the small factors;
  the factors 121188227 and 284923350497477 are beyond it, so C33 fixes their product
  and not the exact keys.
\<close>

section \<open>Properties across the components\<close>

text \<open>
  C18. What the program prints is a prime factorisation: when the \<open>__main__\<close> block
  prints \<open>to_dict(factorization(N))\<close> for \<open>N > 1\<close>, every key is prime, every
  multiplicity is positive, and the product of the keys raised to their multiplicities
  is \<open>N\<close>.
\<close>

theorem report_correct:
  assumes "report r s N = Some d" and "1 < N"
  shows "list_all (\<lambda>(k, c). isprime k \<and> 0 < c) d \<and> prod_list (map (\<lambda>(k, c). k ^ c) d) = N"
proof -
  from report_fs [OF assms] obtain fs where d: "d = to_dict fs"
      and c: "prod_list fs = N" "list_all isprime fs"
    by blast
  then show ?thesis by (simp add: to_dict_isprime prod_list_to_dict)
qed

theorem report_correct_witness:
  "report (\<lambda>j lo hi. if j = 2 then 3 else lo) 0 91 = Some [(7, 1), (13, 1)]
   \<and> list_all (\<lambda>(k, c). isprime k \<and> 0 < c) [(7::int, 1::nat), (13, 1)]
   \<and> prod_list (map (\<lambda>(k, c). k ^ c) [(7::int, 1::nat), (13, 1)]) = 91"
proof -
  have t: "to_dict [7, 13] = [(7, 1), (13, 1)]" by code_simp
  have p: "\<not> isprime 91" by (simp add: isprime_def upto.simps)
  have run: "report (\<lambda>j lo hi. if j = 2 then 3 else lo) 0 91 = Some [(7, 1), (13, 1)]"
    using factorization_91 t p by (simp add: report_def)
  show ?thesis using report_correct [OF run] run by simp
qed

lemma prime_divisor_91:
  "isprime x \<Longrightarrow> x dvd 91 \<Longrightarrow> x = 7 \<or> x = 13"
proof -
  assume p: "isprime x" and d: "x dvd 91"
  have "list_all (\<lambda>x. x dvd 91 \<longrightarrow> isprime x \<longrightarrow> x = 7 \<or> x = 13) [2..91]"
    by code_simp
  then have all: "\<forall>x\<in>{2..91}. x dvd 91 \<longrightarrow> isprime x \<longrightarrow> x = 7 \<or> x = 13"
    by (simp only: list_all_iff set_upto)
  have "x \<le> 91" using d by (simp add: zdvd_imp_le)
  with p have "x \<in> {2..91}" by (simp add: isprime_def)
  with all p d show ?thesis by blast
qed

lemma pow_le_prod_list:
  "list_all (\<lambda>x. m \<le> x) xs \<Longrightarrow> 0 \<le> (m::int) \<Longrightarrow> m ^ length xs \<le> prod_list xs"
proof (induction xs)
  case Nil
  then show ?case by simp
next
  case (Cons x xs)
  then have "m * m ^ length xs \<le> x * prod_list xs"
    by (intro mult_mono) auto
  then show ?case by simp
qed

text \<open>
  C19. The specification's example \<open>factor(91) = {7, 13}\<close>, for every random
  source: whenever \<open>factorization(91)\<close> returns a list, it is \<open>[7, 13]\<close> or
  \<open>[13, 7]\<close>.
\<close>

theorem factorization_91_factors:
  assumes "factorization r s 91 = Some (Factor_List fs, s')"
  shows "fs = [7, 13] \<or> fs = [13, 7]"
proof -
  have c: "prod_list fs = 91 \<and> list_all isprime fs"
    using get_next_correct [OF factorization_get_next [OF assms]] by simp
  have mem: "\<forall>x \<in> set fs. x = 7 \<or> x = 13"
  proof
    fix x assume x: "x \<in> set fs"
    with c have "x dvd 91" using prod_list_dvd [OF x] by simp
    moreover from x c have "isprime x" by (simp add: list_all_iff)
    ultimately show "x = 7 \<or> x = 13" by (intro prime_divisor_91)
  qed
  then have "list_all (\<lambda>x. 7 \<le> x) fs" by (auto simp: list_all_iff)
  then have "7 ^ length fs \<le> prod_list fs" by (rule pow_le_prod_list) simp
  with c have "(7::int) ^ length fs < 7 ^ 3" by simp
  then have "length fs < 3" using power_less_imp_less_exp [of "7::int" "length fs" 3] by simp
  then consider "fs = []" | x where "fs = [x]" | x y where "fs = [x, y]"
    by (cases fs rule: remdups_adj.cases) auto
  then show ?thesis
  proof cases
    case 1
    with c show ?thesis by simp
  next
    case (2 x)
    with c mem show ?thesis by auto
  next
    case (3 x y)
    with c mem show ?thesis by auto
  qed
qed

theorem factorization_91_factors_witness:
  "factorization (\<lambda>j lo hi. if j = 2 then 3 else lo) 0 91 = Some (Factor_List [7, 13], 3)
   \<and> ([7, 13] = [7, 13 :: int] \<or> [7, 13] = [13, 7 :: int])"
  using factorization_91_factors [OF factorization_91] factorization_91 by simp

end
